theory Spec2Isabelle
  imports Main "HOL-Library.Multiset"
begin

section \<open>Text as the consumer reads it\<close>

text \<open>
  The live data file is read through a single-byte encoding: one \<^typ>\<open>char\<close> per
  byte, so that the offset reported by \<^verbatim>\<open>file.tell()\<close> counts the characters read.
  \<^verbatim>\<open>str.strip()\<close> and the regular expression class \<^verbatim>\<open>\s\<close> remove the characters
  Python calls whitespace; below 256 these are 9 to 13, 28 to 32, 133 and 160.
\<close>

definition isspace :: "char \<Rightarrow> bool" where
  "isspace c =
     (let n = (of_char c :: nat)
      in (9 \<le> n \<and> n \<le> 13) \<or> (28 \<le> n \<and> n \<le> 32) \<or> n = 133 \<or> n = 160)"

definition strip :: "string \<Rightarrow> string" where
  "strip s = rev (dropWhile isspace (rev (dropWhile isspace s)))"

text \<open>
  \<^verbatim>\<open>for line in file\<close> on a file opened with \<^verbatim>\<open>open(path, "r")\<close>: universal
  newlines. A line ends after \<^verbatim>\<open>\n\<close>, \<^verbatim>\<open>\r\n\<close> or \<^verbatim>\<open>\r\<close>, each handed to
  the program as \<^verbatim>\<open>\n\<close>; what follows the last terminator is a line as well, without
  a terminator. The first argument collects the current line in reverse.
\<close>

fun iter_lines :: "string \<Rightarrow> string \<Rightarrow> string list" where
  "iter_lines acc [] = (if acc = [] then [] else [rev acc])"
| "iter_lines acc (c # cs) =
     (if c = CHR 0x0A then rev (CHR 0x0A # acc) # iter_lines [] cs
      else if c = CHR 0x0D then
        (case cs of
           d # ds \<Rightarrow>
             if d = CHR 0x0A then rev (CHR 0x0A # acc) # iter_lines [] ds
             else rev (CHR 0x0A # acc) # iter_lines [] cs
         | [] \<Rightarrow> rev (CHR 0x0A # acc) # iter_lines [] cs)
      else iter_lines (c # acc) cs)"

section \<open>Python values\<close>

text \<open>
  A value produced by \<^verbatim>\<open>json.loads\<close>. A float is kept as the two things this program
  can observe of it: its truth value, and the text SQLite stores for it in a column of
  TEXT affinity (\<open>None\<close> for NaN, which is bound as NULL). A dict is the list of its
  items.
\<close>

datatype pyfloat = PyFloat (nonzero: bool) (sql_text: "string option")

datatype json =
    JNull
  | JBool bool
  | JInt int
  | JFloat pyfloat
  | JStr string
  | JArr "json list"
  | JObj "(string \<times> json) list"

text \<open>Python's truth value, as \<^verbatim>\<open>not x\<close> tests it.\<close>

fun truthy :: "json \<Rightarrow> bool" where
  "truthy JNull = False"
| "truthy (JBool b) = b"
| "truthy (JInt i) = (i \<noteq> 0)"
| "truthy (JFloat f) = nonzero f"
| "truthy (JStr s) = (s \<noteq> [])"
| "truthy (JArr xs) = (xs \<noteq> [])"
| "truthy (JObj kvs) = (kvs \<noteq> [])"

text \<open>\<^verbatim>\<open>dict.get(key)\<close>: \<^verbatim>\<open>None\<close> for a missing key.\<close>

definition dict_get :: "(string \<times> json) list \<Rightarrow> string \<Rightarrow> json" where
  "dict_get d k = (case map_of d k of None \<Rightarrow> JNull | Some v \<Rightarrow> v)"

datatype exn =
    FileNotFoundError
  | OSError
  | JSONDecodeError
  | OperationalError
  | ProgrammingError
  | OverflowError
  | IntegrityError

section \<open>\<^verbatim>\<open>datetime.strptime(s, "%Y-%m-%d %H:%M:%S")\<close>\<close>

text \<open>
  The standard library turns the format into the regular expression
  \<^verbatim>\<open>(\d\d\d\d)-(1[0-2]|0[1-9]|[1-9])-(3[0-1]|[1-2]\d|0[1-9]|[1-9]| [1-9])\s+\<close>
  \<^verbatim>\<open>(2[0-3]|[0-1]\d|\d):([0-5]\d|\d):(6[0-1]|[0-5]\d|\d)\<close>, takes its first match at
  the start of the string, and raises \<^verbatim>\<open>ValueError\<close> when there is none, when the match
  ends before the string does, or when the fields are no date and time. A matcher
  returns its matches in the order the backtracking search tries them, each with the
  rest of the string.
\<close>

record datetime =
  year :: int
  month :: int
  day :: int
  hour :: int
  minute :: int
  second :: int

definition digit :: "int \<Rightarrow> int \<Rightarrow> string \<Rightarrow> (int \<times> string) list" where
  "digit lo hi s =
     (case s of
        [] \<Rightarrow> []
      | c # r \<Rightarrow>
          (let v = int (of_char c) - 48
           in if lo \<le> v \<and> v \<le> hi then [(v, r)] else []))"

definition digits2 :: "int \<Rightarrow> int \<Rightarrow> int \<Rightarrow> int \<Rightarrow> string \<Rightarrow> (int \<times> string) list" where
  "digits2 a b c d s = [(10 * x + y, r'). (x, r) \<leftarrow> digit a b s, (y, r') \<leftarrow> digit c d r]"

definition lit :: "char \<Rightarrow> string \<Rightarrow> string list" where
  "lit c s = (case s of [] \<Rightarrow> [] | x # r \<Rightarrow> if x = c then [r] else [])"

definition re_space :: "string \<Rightarrow> string list" where
  "re_space s = map (\<lambda>k. drop k s) (rev [1 ..< Suc (length (takeWhile isspace s))])"

definition re_Y :: "string \<Rightarrow> (int \<times> string) list" where
  "re_Y s =
     [(1000 * a + 100 * b + 10 * c + d, r4).
        (a, r1) \<leftarrow> digit 0 9 s, (b, r2) \<leftarrow> digit 0 9 r1,
        (c, r3) \<leftarrow> digit 0 9 r2, (d, r4) \<leftarrow> digit 0 9 r3]"

definition re_m :: "string \<Rightarrow> (int \<times> string) list" where
  "re_m s = digits2 1 1 0 2 s @ digits2 0 0 1 9 s @ digit 1 9 s"

definition re_d :: "string \<Rightarrow> (int \<times> string) list" where
  "re_d s =
     digits2 3 3 0 1 s @ digits2 1 2 0 9 s @ digits2 0 0 1 9 s @ digit 1 9 s
     @ [(v, r'). r \<leftarrow> lit CHR '' '' s, (v, r') \<leftarrow> digit 1 9 r]"

definition re_H :: "string \<Rightarrow> (int \<times> string) list" where
  "re_H s = digits2 2 2 0 3 s @ digits2 0 1 0 9 s @ digit 0 9 s"

definition re_M :: "string \<Rightarrow> (int \<times> string) list" where
  "re_M s = digits2 0 5 0 9 s @ digit 0 9 s"

definition re_S :: "string \<Rightarrow> (int \<times> string) list" where
  "re_S s = digits2 6 6 0 1 s @ digits2 0 5 0 9 s @ digit 0 9 s"

definition format_regex :: "string \<Rightarrow> (datetime \<times> string) list" where
  "format_regex s =
     [(\<lparr>year = Y, month = m, day = d, hour = H, minute = M, second = S\<rparr>, r11).
        (Y, r1) \<leftarrow> re_Y s, r2 \<leftarrow> lit CHR ''-'' r1,
        (m, r3) \<leftarrow> re_m r2, r4 \<leftarrow> lit CHR ''-'' r3,
        (d, r5) \<leftarrow> re_d r4, r6 \<leftarrow> re_space r5,
        (H, r7) \<leftarrow> re_H r6, r8 \<leftarrow> lit CHR '':'' r7,
        (M, r9) \<leftarrow> re_M r8, r10 \<leftarrow> lit CHR '':'' r9,
        (S, r11) \<leftarrow> re_S r10]"

definition is_leap :: "int \<Rightarrow> bool" where
  "is_leap y = (y mod 4 = 0 \<and> (y mod 100 \<noteq> 0 \<or> y mod 400 = 0))"

definition days_in_month :: "int \<Rightarrow> int \<Rightarrow> int" where
  "days_in_month y m =
     (if m = 2 then (if is_leap y then 29 else 28)
      else if m = 4 \<or> m = 6 \<or> m = 9 \<or> m = 11 then 30
      else 31)"

text \<open>\<open>None\<close> is the \<^verbatim>\<open>ValueError\<close>.\<close>

definition strptime :: "string \<Rightarrow> datetime option" where
  "strptime s =
     (case format_regex s of
        [] \<Rightarrow> None
      | (dt, rest) # _ \<Rightarrow>
          if rest \<noteq> [] then None
          else if year dt < 1 \<or> days_in_month (year dt) (month dt) < day dt then None
          else if 59 < second dt then None
          else Some dt)"

section \<open>The storage engine\<close>

text \<open>
  The table \<^verbatim>\<open>keyword_popularity\<close>: its rows in insertion order and the last value
  of the AUTOINCREMENT sequence. \<open>keyword\<close> is \<open>None\<close> for NULL. SQLite integers
  are 64-bit and \<^verbatim>\<open>count + 1\<close> leaves the integers at \<open>2^63 - 1\<close>; \<open>count\<close> is
  an unbounded integer here, and the theorems about counts state the bound.
\<close>

record row =
  row_id :: nat
  hour_of_day :: int
  keyword :: "string option"
  count :: int
  last_updated :: string

record database =
  rows :: "row list"
  last_id :: nat

text \<open>
  What sqlite3 makes of a Python parameter. An integer must fit 64 bits; a list or a
  dict is refused; in the TEXT column \<^verbatim>\<open>keyword\<close>, and compared with it, a number is
  its text.
\<close>

fun digits_of :: "nat \<Rightarrow> string" where
  "digits_of n =
     (if n < 10 then [char_of (48 + n)]
      else digits_of (n div 10) @ [char_of (48 + n mod 10)])"

definition str_of_int :: "int \<Rightarrow> string" where
  "str_of_int i = (if i < 0 then CHR ''-'' # digits_of (nat (- i)) else digits_of (nat i))"

definition bind_int :: "int \<Rightarrow> exn + int" where
  "bind_int i = (if - (2 ^ 63) \<le> i \<and> i < 2 ^ 63 then Inr i else Inl OverflowError)"

fun bind_text :: "json \<Rightarrow> exn + string option" where
  "bind_text JNull = Inr None"
| "bind_text (JBool b) = Inr (Some (if b then ''1'' else ''0''))"
| "bind_text (JInt i) =
     (case bind_int i of Inl e \<Rightarrow> Inl e | Inr j \<Rightarrow> Inr (Some (str_of_int j)))"
| "bind_text (JFloat f) = Inr (sql_text f)"
| "bind_text (JStr s) = Inr (Some s)"
| "bind_text (JArr xs) = Inl ProgrammingError"
| "bind_text (JObj kvs) = Inl ProgrammingError"

text \<open>
  \<^verbatim>\<open>WHERE hour_of_day = ? AND keyword = ?\<close>: a comparison with NULL is not true.
\<close>

definition matches :: "int \<Rightarrow> string option \<Rightarrow> row \<Rightarrow> bool" where
  "matches h k r = (hour_of_day r = h \<and> k \<noteq> None \<and> keyword r = k)"

text \<open>
  \<^verbatim>\<open>UPDATE keyword_popularity SET count = count + 1, last_updated = ? WHERE ...\<close>,
  with the number of rows it changed (\<^verbatim>\<open>cursor.rowcount\<close>).
\<close>

definition sql_update :: "string \<Rightarrow> int \<Rightarrow> string option \<Rightarrow> database \<Rightarrow> database \<times> nat" where
  "sql_update t h k db =
     (db\<lparr>rows := map (\<lambda>r. if matches h k r
                              then r\<lparr>count := count r + 1, last_updated := t\<rparr>
                              else r) (rows db)\<rparr>,
      length (filter (matches h k) (rows db)))"

text \<open>
  \<^verbatim>\<open>INSERT INTO keyword_popularity (hour_of_day, keyword, count, last_updated)\<close>
  \<^verbatim>\<open>VALUES (?, ?, 1, ?)\<close>, under \<^verbatim>\<open>UNIQUE(hour_of_day, keyword)\<close>.
\<close>

definition sql_insert :: "int \<Rightarrow> string option \<Rightarrow> string \<Rightarrow> database \<Rightarrow> exn + database" where
  "sql_insert h k t db =
     (if \<exists>r \<in> set (rows db). matches h k r then Inl IntegrityError
      else Inr \<lparr>rows = rows db @ [\<lparr>row_id = Suc (last_id db), hour_of_day = h, keyword = k,
                                    count = 1, last_updated = t\<rparr>],
                last_id = Suc (last_id db)\<rparr>)"

text \<open>
  The two statements of \<^verbatim>\<open>update_keyword_count\<close> one after the other: the
  \<^verbatim>\<open>INSERT\<close> runs when the \<^verbatim>\<open>UPDATE\<close> changed no row.
\<close>

definition upsert :: "string \<Rightarrow> int \<Rightarrow> string option \<Rightarrow> database \<Rightarrow> database" where
  "upsert t h k db =
     (let (db1, rowcount) = sql_update t h k db
      in if rowcount = 0
         then (case sql_insert h k t db1 of Inl x \<Rightarrow> db1 | Inr db2 \<Rightarrow> db2)
         else db1)"

section \<open>The process and its environment\<close>

text \<open>
  What the program does not decide is an input. \<open>loads\<close> is \<^verbatim>\<open>json.loads\<close>
  (\<open>None\<close>: it raises); \<open>clock n\<close> is the text of \<^verbatim>\<open>datetime.now()\<close> at its
  \<open>n\<close>-th call; \<open>io_fault n\<close> says where, if anywhere, the storage engine fails in
  the \<open>n\<close>-th connection (a locked or unwritable database); \<open>live_data\<close> is the
  source file as the cycle finds it; \<open>settings\<close> is what the configuration module
  returns (\<open>None\<close>: it raises), the polling interval; \<open>unlink_fails\<close> is whether a
  prior database file cannot be deleted.
\<close>

datatype stage = Connect | Statement1 | Statement2 | Commit

datatype source_file =
    Missing
  | Denied
  | Readable string
  | Failing string

record env =
  loads :: "string \<Rightarrow> json option"
  clock :: "nat \<Rightarrow> string"
  io_fault :: "nat \<Rightarrow> stage option"
  live_data :: source_file
  settings :: "nat option"
  unlink_fails :: bool

text \<open>
  The state the process changes: the database file and its table (\<open>None\<close>: there is
  no table), how often the clock was read, how many connections were opened, how
  often the source file was opened, how often the process slept, and the log, each
  record with its level and the fixed part of its message.
\<close>

datatype level = INFO | WARNING | ERROR

record world =
  db_file :: bool
  table :: "database option"
  ticks :: nat
  txns :: nat
  opens :: nat
  sleeps :: nat
  log :: "(level \<times> string) list"

definition logger :: "level \<Rightarrow> string \<Rightarrow> world \<Rightarrow> world" where
  "logger lv msg w = w\<lparr>log := log w @ [(lv, msg)]\<rparr>"

text \<open>The world when the process starts: no database file, nothing done yet.\<close>

definition process_start :: world where
  "process_start =
     \<lparr>db_file = False, table = None, ticks = 0, txns = 0, opens = 0, sleeps = 0, log = []\<rparr>"

text \<open>\<^verbatim>\<open>sqlite3.connect\<close>: the next connection, and where it will fail.\<close>

definition connect :: "env \<Rightarrow> world \<Rightarrow> stage option \<times> world" where
  "connect e w = (io_fault e (txns w), w\<lparr>txns := Suc (txns w)\<rparr>)"

section \<open>\<^verbatim>\<open>init_keyword_db\<close>\<close>

text \<open>
  Making the directory and opening the connection are the stage \<open>Connect\<close>; the
  two statements are \<^verbatim>\<open>DROP TABLE IF EXISTS\<close> and \<^verbatim>\<open>CREATE TABLE IF NOT EXISTS\<close>,
  which take effect as they run. Every exception is caught and logged: the function
  returns normally.
\<close>

definition init_keyword_db :: "env \<Rightarrow> world \<Rightarrow> world" where
  "init_keyword_db e w0 =
     (let w1 = logger INFO ''Calling keyword init_db() with {db_path=}.'' w0;
          (fault, w2) = connect e w1
      in if fault = Some Connect
         then logger ERROR ''ERROR: Failed to initialize keyword database'' w2
         else
           (let w3 = logger INFO ''SUCCESS: Got a cursor to execute SQL.'' (w2\<lparr>db_file := True\<rparr>)
            in if fault = Some Statement1
               then logger ERROR ''ERROR: Failed to initialize keyword database'' w3
               else
                 (let w4 = w3\<lparr>table := None\<rparr>
                  in if fault = Some Statement2
                     then logger ERROR ''ERROR: Failed to initialize keyword database'' w4
                     else
                       (let w5 = w4\<lparr>table := Some \<lparr>rows = [], last_id = 0\<rparr>\<rparr>
                        in if fault = Some Commit
                           then logger ERROR ''ERROR: Failed to initialize keyword database'' w5
                           else logger INFO ''SUCCESS: Keyword database initialized and table ready'' w5))))"

section \<open>\<^verbatim>\<open>update_keyword_count\<close>\<close>

text \<open>
  The body of the \<^verbatim>\<open>try\<close>: the world as the body leaves it, and the exception it
  raises, if any. The table changes at the commit only: leaving the \<^verbatim>\<open>with\<close> block
  by an exception rolls the transaction back.
\<close>

definition update_transaction ::
  "stage option \<Rightarrow> string \<Rightarrow> int \<Rightarrow> json \<Rightarrow> world \<Rightarrow> world \<times> exn option" where
  "update_transaction fault current_time h k w =
     (if fault = Some Connect then (w, Some OperationalError)
      else
        (let w1 = w\<lparr>db_file := True\<rparr>
         in case table w1 of
              None \<Rightarrow> (w1, Some OperationalError)
            | Some db \<Rightarrow>
                (case bind_int h of
                   Inl x \<Rightarrow> (w1, Some x)
                 | Inr hv \<Rightarrow>
                     (case bind_text k of
                        Inl x \<Rightarrow> (w1, Some x)
                      | Inr kv \<Rightarrow>
                          if fault = Some Statement1 then (w1, Some OperationalError)
                          else
                            (let (db1, rowcount) = sql_update current_time hv kv db
                             in if rowcount = 0 then
                                  (if fault = Some Statement2 then (w1, Some OperationalError)
                                   else
                                     (case sql_insert hv kv current_time db1 of
                                        Inl x \<Rightarrow> (w1, Some x)
                                      | Inr db2 \<Rightarrow>
                                          (let w2 = logger INFO ''Inserted new keyword record'' w1
                                           in if fault = Some Commit then (w2, Some OperationalError)
                                              else (w2\<lparr>table := Some db2\<rparr>, None))))
                                else
                                  (let w2 = logger INFO ''Updated existing keyword record'' w1
                                   in if fault = Some Commit then (w2, Some OperationalError)
                                      else (w2\<lparr>table := Some db1\<rparr>, None)))))))"

text \<open>
  The function up to its handler: the log record, the clock, the connection and the
  body of the \<^verbatim>\<open>try\<close>.
\<close>

definition update_attempt :: "env \<Rightarrow> int \<Rightarrow> json \<Rightarrow> world \<Rightarrow> world \<times> exn option" where
  "update_attempt e h k w0 =
     (let w1 = logger INFO ''Updating keyword count'' w0;
          current_time = clock e (ticks w1);
          w2 = w1\<lparr>ticks := Suc (ticks w1)\<rparr>;
          (fault, w3) = connect e w2
      in update_transaction fault current_time h k w3)"

text \<open>The handler logs the exception; the function returns normally either way.\<close>

definition update_keyword_count :: "env \<Rightarrow> int \<Rightarrow> json \<Rightarrow> world \<Rightarrow> world" where
  "update_keyword_count e h k w0 =
     (case update_attempt e h k w0 of
        (w4, None) \<Rightarrow> w4
      | (w4, Some x) \<Rightarrow> logger ERROR ''ERROR: Failed to update keyword count'' w4)"

section \<open>\<^verbatim>\<open>process_message\<close>\<close>

text \<open>
  The result is the dict of \<^verbatim>\<open>hour_of_day\<close> and \<^verbatim>\<open>keyword\<close>, as a pair, or
  \<^verbatim>\<open>None\<close>. A message that is no dict has no \<^verbatim>\<open>get\<close>, a timestamp that is no string
  is refused by \<^verbatim>\<open>strptime\<close>, a string it cannot parse raises \<^verbatim>\<open>ValueError\<close>: all
  three are caught by the \<^verbatim>\<open>except\<close>.
\<close>

definition process_message :: "json \<Rightarrow> world \<Rightarrow> world \<times> (int \<times> json) option" where
  "process_message message w =
     (case message of
        JObj d \<Rightarrow>
          (let timestamp_str = dict_get d ''timestamp'';
               kw = dict_get d ''keyword_mentioned''
           in if \<not> truthy timestamp_str \<or> \<not> truthy kw
              then (logger WARNING ''Message missing timestamp or keyword, skipping'' w, None)
              else
                (case timestamp_str of
                   JStr ts \<Rightarrow>
                     (case strptime ts of
                        Some timestamp \<Rightarrow>
                          (logger INFO ''Processed message'' w, Some (hour timestamp, kw))
                      | None \<Rightarrow> (logger ERROR ''Error processing message'' w, None))
                 | _ \<Rightarrow> (logger ERROR ''Error processing message'' w, None)))
      | _ \<Rightarrow> (logger ERROR ''Error processing message'' w, None))"

section \<open>\<^verbatim>\<open>consume_messages_from_file\<close>\<close>

text \<open>
  The \<^verbatim>\<open>for\<close> loop over the lines: the world after it, and the exception that ended
  it, if any. \<^verbatim>\<open>json.loads\<close> is called outside \<^verbatim>\<open>process_message\<close>, so what it
  raises leaves the loop.
\<close>

fun process_lines :: "env \<Rightarrow> string list \<Rightarrow> world \<Rightarrow> world \<times> exn option" where
  "process_lines e [] w = (w, None)"
| "process_lines e (line # rest) w =
     (if strip line \<noteq> [] then
        (case loads e (strip line) of
           None \<Rightarrow> (w, Some JSONDecodeError)
         | Some message \<Rightarrow>
             (case process_message message w of
                (w1, Some (h, k)) \<Rightarrow> process_lines e rest (update_keyword_count e h k w1)
              | (w1, None) \<Rightarrow> process_lines e rest w1))
      else process_lines e rest w)"

text \<open>How a call ends: \<^verbatim>\<open>return position\<close>, or \<^verbatim>\<open>sys.exit(code)\<close>.\<close>

datatype outcome = Returned nat | Exited nat

text \<open>
  The \<^verbatim>\<open>try\<close> statement inside \<^verbatim>\<open>while True\<close>: open, seek, read every line, take
  \<^verbatim>\<open>file.tell()\<close> and return it; \<^verbatim>\<open>FileNotFoundError\<close> exits with 10 and any other
  exception with 11. The second component is \<open>None\<close> when the statement ends with
  neither, which is when the loop would sleep and go round again.
\<close>

definition read_file :: "env \<Rightarrow> nat \<Rightarrow> world \<Rightarrow> world \<times> (exn + nat)" where
  "read_file e last_position w =
     (case live_data e of
        Missing \<Rightarrow> (w, Inl FileNotFoundError)
      | Denied \<Rightarrow> (w, Inl OSError)
      | Readable content \<Rightarrow>
          (case process_lines e (iter_lines [] (drop last_position content)) w of
             (w1, Some x) \<Rightarrow> (w1, Inl x)
           | (w1, None) \<Rightarrow> (w1, Inr (max last_position (length content))))
      | Failing content \<Rightarrow>
          (case process_lines e (iter_lines [] (drop last_position content)) w of
             (w1, Some x) \<Rightarrow> (w1, Inl x)
           | (w1, None) \<Rightarrow> (w1, Inl OSError)))"

definition read_cycle :: "env \<Rightarrow> nat \<Rightarrow> world \<Rightarrow> world \<times> outcome option" where
  "read_cycle e last_position w0 =
     (let w1 = logger INFO ''3. Read from live data file at position'' w0;
          w2 = w1\<lparr>opens := Suc (opens w1)\<rparr>
      in case read_file e last_position w2 of
           (w3, Inr position) \<Rightarrow> (w3, Some (Returned position))
         | (w3, Inl x) \<Rightarrow>
             if x = FileNotFoundError
             then (logger ERROR ''ERROR: Live data file not found'' w3, Some (Exited 10))
             else (logger ERROR ''ERROR: Error reading from live data file'' w3,
                   Some (Exited 11)))"

definition time_sleep :: "nat \<Rightarrow> world \<Rightarrow> world" where
  "time_sleep interval_secs w = w\<lparr>sleeps := Suc (sleeps w)\<rparr>"

text \<open>\<^verbatim>\<open>while True\<close>; the result is \<open>None\<close> if the loop never ends.\<close>

partial_function (option) poll :: "env \<Rightarrow> nat \<Rightarrow> nat \<Rightarrow> world \<Rightarrow> (world \<times> outcome) option" where
  "poll e interval_secs last_position w =
     (case read_cycle e last_position w of
        (w1, Some out) \<Rightarrow> Some (w1, out)
      | (w1, None) \<Rightarrow> poll e interval_secs last_position (time_sleep interval_secs w1))"

definition consume_messages_from_file ::
  "env \<Rightarrow> nat \<Rightarrow> nat \<Rightarrow> world \<Rightarrow> (world \<times> outcome) option" where
  "consume_messages_from_file e interval_secs last_position w0 =
     (let w1 = logger INFO ''Called consume_messages_from_file() with:'' w0;
          w2 = logger INFO ''   {live_data_path=}'' w1;
          w3 = logger INFO ''   {sql_path=}'' w2;
          w4 = logger INFO ''   {interval_secs=}'' w3;
          w5 = logger INFO ''   {last_position=}'' w4;
          w6 = logger INFO ''1. Initialize the keyword database.'' w5;
          w7 = init_keyword_db e w6;
          w8 = logger INFO ''2. Set the last position to 0 to start at the beginning of the file.'' w7;
          last_position = 0
      in poll e interval_secs last_position w8)"

section \<open>\<^verbatim>\<open>main\<close>\<close>

text \<open>
  The result is the exit status of the process: 0 when \<^verbatim>\<open>main\<close> returns, the code of
  \<^verbatim>\<open>sys.exit\<close> otherwise (\<^verbatim>\<open>SystemExit\<close> is no \<^verbatim>\<open>Exception\<close>: the handlers of
  \<^verbatim>\<open>main\<close> let it pass, and \<^verbatim>\<open>finally\<close> logs the shutdown). \<^verbatim>\<open>init_keyword_db\<close>
  raises nothing, so the handler of step 3, with \<^verbatim>\<open>sys.exit(3)\<close>, has nothing to
  catch. An interrupt from the keyboard is not modelled.
\<close>

definition main :: "env \<Rightarrow> world \<Rightarrow> (world \<times> nat) option" where
  "main e w0 =
     (let w1 = logger INFO ''Starting Keyword Popularity Consumer to run continuously.'' w0;
          w2 = logger INFO ''This consumer tracks when different keywords are most popular.'' w1;
          w3 = logger INFO ''STEP 1. Read environment variables using config functions.'' w2
      in case settings e of
           None \<Rightarrow> Some (logger ERROR ''ERROR: Failed to read environment variables'' w3, 1)
         | Some interval_secs \<Rightarrow>
             (let w4 = logger INFO ''SUCCESS: Read environment variables.'' w3;
                  w5 = logger INFO ''STEP 2. Delete any prior database file for a fresh start.'' w4
              in if db_file w5 \<and> unlink_fails e
                 then Some (logger ERROR ''ERROR: Failed to delete DB file'' w5, 2)
                 else
                   (let w6 = (if db_file w5
                              then logger INFO ''SUCCESS: Deleted previous keyword database file.''
                                     (w5\<lparr>db_file := False, table := None\<rparr>)
                              else w5);
                        w7 = logger INFO ''STEP 3. Initialize a new keyword database with an empty table.'' w6;
                        w8 = init_keyword_db e w7;
                        w9 = logger INFO ''STEP 4. Begin consuming and analyzing keyword popularity.'' w8
                    in case consume_messages_from_file e interval_secs 0 w9 of
                         None \<Rightarrow> None
                       | Some (w10, out) \<Rightarrow>
                           (let w11 = logger INFO ''TRY/FINALLY: Keyword Consumer shutting down.'' w10
                            in case out of
                                 Returned position \<Rightarrow> Some (w11, 0)
                               | Exited code \<Rightarrow> Some (w11, code)))))"

section \<open>Observations of the table, and sequences of calls\<close>

text \<open>
  The counts stored for a key, one for each row of the key; a sequence of calls
  \<^verbatim>\<open>update_keyword_count(hour, keyword)\<close> with a text for the keyword; and the
  offset at which the last terminated line of a content ends.
\<close>

definition stored_counts :: "int \<Rightarrow> string \<Rightarrow> world \<Rightarrow> int list" where
  "stored_counts h k w =
     (case table w of
        None \<Rightarrow> []
      | Some db \<Rightarrow> map count (filter (matches h (Some k)) (rows db)))"

fun apply_observations :: "env \<Rightarrow> (int \<times> string) list \<Rightarrow> world \<Rightarrow> world" where
  "apply_observations e [] w = w"
| "apply_observations e ((h, k) # obs) w =
     apply_observations e obs (update_keyword_count e h (JStr k) w)"

text \<open>
  The key a line gives to the table, if it gives one: the result of
  \<^verbatim>\<open>process_message\<close> on what \<^verbatim>\<open>json.loads\<close> makes of the stripped line (the result
  does not depend on the world). The keys of a content, line by line in the order of
  the file; a sequence of calls \<^verbatim>\<open>update_keyword_count\<close> with such keys; and two
  worlds whose storage is the same: the table, and the counts of clock reads and of
  connections.
\<close>

definition line_key :: "env \<Rightarrow> string \<Rightarrow> (int \<times> json) option" where
  "line_key e line =
     (if strip line = [] then None
      else case loads e (strip line) of
             None \<Rightarrow> None
           | Some message \<Rightarrow> snd (process_message message process_start))"

definition observations :: "env \<Rightarrow> string \<Rightarrow> (int \<times> json) list" where
  "observations e content = List.map_filter (line_key e) (iter_lines [] content)"

fun apply_keys :: "env \<Rightarrow> (int \<times> json) list \<Rightarrow> world \<Rightarrow> world" where
  "apply_keys e [] w = w"
| "apply_keys e ((h, k) # obs) w = apply_keys e obs (update_keyword_count e h k w)"

definition same_store :: "world \<Rightarrow> world \<Rightarrow> bool" where
  "same_store w w' = (table w = table w' \<and> ticks w = ticks w' \<and> txns w = txns w')"

text \<open>
  The keys of the rows, and what is shown to hold of every table the calls build: no
  key twice, no NULL keyword, no count below one.
\<close>

definition row_keys :: "database \<Rightarrow> (int \<times> string option) list" where
  "row_keys db = map (\<lambda>r. (hour_of_day r, keyword r)) (rows db)"

definition table_ok :: "database \<Rightarrow> bool" where
  "table_ok db =
     (distinct (row_keys db) \<and> (\<forall>r \<in> set (rows db). keyword r \<noteq> None \<and> 1 \<le> count r))"

text \<open>Every line of a content that is not blank is JSON.\<close>

definition json_lines :: "env \<Rightarrow> string \<Rightarrow> bool" where
  "json_lines e content =
     (\<forall>line \<in> set (iter_lines [] content). strip line \<noteq> [] \<longrightarrow> loads e (strip line) \<noteq> None)"

definition terminator :: "char \<Rightarrow> bool" where
  "terminator c = (c = CHR 0x0A \<or> c = CHR 0x0D)"

definition last_line_end :: "string \<Rightarrow> nat" where
  "last_line_end content =
     length content - length (takeWhile (\<lambda>c. \<not> terminator c) (rev content))"

section \<open>Sample inputs\<close>

text \<open>
  The record of the specification's scenario, what \<^verbatim>\<open>json.loads\<close> returns for it,
  a record without a keyword, and \<^verbatim>\<open>json.loads\<close> on the texts of the examples below:
  of these, only the two records are JSON. The sample environment has a clock that
  stands still and a configuration that loads; the storage faults and the source file
  are its arguments.
\<close>

definition meme_line :: string where
  \<open>meme_line = ''{"timestamp":"2025-01-29 14:35:20","keyword_mentioned":"meme"}''\<close>

definition meme_message :: json where
  "meme_message =
     JObj [(''timestamp'', JStr ''2025-01-29 14:35:20''), (''keyword_mentioned'', JStr ''meme'')]"

definition no_keyword_line :: string where
  \<open>no_keyword_line = ''{"timestamp":"2025-01-29 14:35:20"}''\<close>

definition sample_loads :: "string \<Rightarrow> json option" where
  "sample_loads s =
     (if s = meme_line then Some meme_message
      else if s = no_keyword_line then Some (JObj [(''timestamp'', JStr ''2025-01-29 14:35:20'')])
      else None)"

definition sample_env :: "(nat \<Rightarrow> stage option) \<Rightarrow> source_file \<Rightarrow> env" where
  "sample_env faults f =
     \<lparr>loads = sample_loads, clock = (\<lambda>n. ''2025-01-29 12:00:00''), io_fault = faults,
      live_data = f, settings = Some 5, unlink_fails = False\<rparr>"

definition no_fault :: "nat \<Rightarrow> stage option" where
  "no_fault n = None"

section \<open>The storage calls, step by step\<close>

lemma logger_fields [simp]:
  "db_file (logger lv m w) = db_file w"
  "table (logger lv m w) = table w"
  "ticks (logger lv m w) = ticks w"
  "txns (logger lv m w) = txns w"
  "opens (logger lv m w) = opens w"
  "sleeps (logger lv m w) = sleeps w"
  "log (logger lv m w) = log w @ [(lv, m)]"
  by (simp_all add: logger_def)

lemma rowcount_zero: "snd (sql_update t h k db) = 0 \<longleftrightarrow> \<not> (\<exists>r \<in> set (rows db). matches h k r)"
  by (auto simp: sql_update_def filter_empty_conv)

lemma matches_bump [simp]:
  "matches h' k' (r\<lparr>count := c, last_updated := t\<rparr>) = matches h' k' r"
  by (simp add: matches_def)

lemma upsert_rows:
  "rows (upsert t h k db) =
     (if \<exists>r \<in> set (rows db). matches h k r
      then map (\<lambda>r. if matches h k r then r\<lparr>count := count r + 1, last_updated := t\<rparr> else r) (rows db)
      else rows db @ [\<lparr>row_id = Suc (last_id db), hour_of_day = h, keyword = k, count = 1, last_updated = t\<rparr>])"
proof (cases "\<exists>r \<in> set (rows db). matches h k r")
  case True
  then have "length (filter (matches h k) (rows db)) \<noteq> 0"
    by (auto simp: filter_empty_conv)
  with True show ?thesis
    by (simp add: upsert_def sql_update_def)
next
  case False
  then have z: "filter (matches h k) (rows db) = []"
    by (auto simp: filter_empty_conv)
  from False have same: "map (\<lambda>r. if matches h k r then r\<lparr>count := count r + 1, last_updated := t\<rparr> else r) (rows db) = rows db"
    by (induction "rows db") (auto simp: map_idI)
  from False z same show ?thesis
    by (simp add: upsert_def sql_update_def sql_insert_def)
qed

lemma update_attempt_ok:
  assumes "update_attempt e h k w = (w', None)"
  shows "\<exists>db hv kv. table w = Some db \<and> bind_int h = Inr hv \<and> bind_text k = Inr kv
           \<and> table w' = Some (upsert (clock e (ticks w)) hv kv db)"
  using assms
  by (auto simp: update_attempt_def update_transaction_def connect_def Let_def upsert_def
      split: if_splits option.splits sum.splits prod.splits)

lemma update_attempt_raise:
  assumes "update_attempt e h k w = (w', Some x)"
  shows "table w' = table w"
  using assms
  by (auto simp: update_attempt_def update_transaction_def connect_def Let_def
      split: if_splits option.splits sum.splits prod.splits)

lemma update_attempt_no_fault:
  assumes "table w = Some db" "bind_int h = Inr hv" "bind_text k = Inr kv" "io_fault e (txns w) = None"
  shows "snd (update_attempt e h k w) = None"
  using assms
  by (auto simp: update_attempt_def update_transaction_def connect_def Let_def sql_insert_def sql_update_def filter_empty_conv
      split: if_splits option.splits sum.splits prod.splits)

lemma update_attempt_frame:
  assumes "update_attempt e h k w = (w', r)"
  shows "opens w' = opens w \<and> sleeps w' = sleeps w \<and> txns w' = Suc (txns w) \<and> ticks w' = Suc (ticks w)"
  using assms
  by (auto simp: update_attempt_def update_transaction_def connect_def Let_def
      split: if_splits option.splits sum.splits prod.splits)


lemma ukc_cases:
  "(\<exists>w1 x. update_attempt e h k w = (w1, Some x) \<and> table (update_keyword_count e h k w) = table w)
   \<or> (\<exists>db hv kv. update_attempt e h k w = (update_keyword_count e h k w, None) \<and> table w = Some db \<and> bind_int h = Inr hv \<and> bind_text k = Inr kv
         \<and> table (update_keyword_count e h k w) = Some (upsert (clock e (ticks w)) hv kv db))"
proof (cases "update_attempt e h k w")
  case (Pair w1 r)
  show ?thesis
  proof (cases r)
    case None
    with Pair update_attempt_ok [of e h k w w1] show ?thesis
      by (auto simp: update_keyword_count_def)
  next
    case (Some x)
    with Pair update_attempt_raise [of e h k w w1 x] show ?thesis
      by (auto simp: update_keyword_count_def)
  qed
qed

lemma ukc_frame:
  "opens (update_keyword_count e h k w) = opens w"
  "sleeps (update_keyword_count e h k w) = sleeps w"
  "txns (update_keyword_count e h k w) = Suc (txns w)"
  "ticks (update_keyword_count e h k w) = Suc (ticks w)"
proof -
  obtain w1 r where a: "update_attempt e h k w = (w1, r)"
    by (cases "update_attempt e h k w")
  note f = update_attempt_frame [OF a]
  show "opens (update_keyword_count e h k w) = opens w"
    using a f by (cases r) (simp_all add: update_keyword_count_def)
  show "sleeps (update_keyword_count e h k w) = sleeps w"
    using a f by (cases r) (simp_all add: update_keyword_count_def)
  show "txns (update_keyword_count e h k w) = Suc (txns w)"
    using a f by (cases r) (simp_all add: update_keyword_count_def)
  show "ticks (update_keyword_count e h k w) = Suc (ticks w)"
    using a f by (cases r) (simp_all add: update_keyword_count_def)
qed

lemma ukc_no_fault:
  assumes "table w = Some db" "bind_int h = Inr hv" "bind_text k = Inr kv" "io_fault e (txns w) = None"
  shows "table (update_keyword_count e h k w) = Some (upsert (clock e (ticks w)) hv kv db)"
proof -
  from update_attempt_no_fault [OF assms] obtain w1 where a: "update_attempt e h k w = (w1, None)"
    by (cases "update_attempt e h k w") auto
  from update_attempt_ok [OF a] assms a show ?thesis
    by (auto simp: update_keyword_count_def)
qed

lemma bind_int_range: "- (2 ^ 63) \<le> h \<Longrightarrow> h < 2 ^ 63 \<Longrightarrow> bind_int h = Inr h"
  by (simp add: bind_int_def)

lemma matches_Some: "matches h (Some k) r \<longleftrightarrow> hour_of_day r = h \<and> keyword r = Some k"
  by (auto simp: matches_def)

section \<open>What a sequence of calls builds\<close>

lemma upsert_ok:
  assumes "table_ok db"
  shows "table_ok (upsert t h (Some k) db)"
proof (cases "\<exists>r \<in> set (rows db). matches h (Some k) r")
  case True
  let ?f = "\<lambda>r. if matches h (Some k) r then r\<lparr>count := count r + 1, last_updated := t\<rparr> else r"
  have r: "rows (upsert t h (Some k) db) = map ?f (rows db)"
    using True by (simp add: upsert_rows)
  have k: "row_keys (upsert t h (Some k) db) = row_keys db"
    unfolding row_keys_def r by (simp add: comp_def if_distrib cong: if_cong)
  have "\<forall>r \<in> set (rows db). keyword (?f r) \<noteq> None \<and> 1 \<le> count (?f r)"
    using assms by (auto simp: table_ok_def)
  then have "\<forall>r \<in> set (map ?f (rows db)). keyword r \<noteq> None \<and> 1 \<le> count r"
    by (simp only: set_map ball_simps)
  with assms k r show ?thesis
    by (simp only: table_ok_def)
next
  case False
  then have "(h, Some k) \<notin> set (row_keys db)"
    by (auto simp: row_keys_def matches_def)
  with False assms show ?thesis
    by (simp add: table_ok_def row_keys_def upsert_rows)
qed

lemma ukc_table_str:
  assumes "table w = Some db"
  shows "table (update_keyword_count e h (JStr k) w) = Some db
         \<or> table (update_keyword_count e h (JStr k) w) = Some (upsert (clock e (ticks w)) h (Some k) db)"
proof -
  from ukc_cases [of e h "JStr k" w] show ?thesis
  proof (elim disjE exE conjE)
    fix w1 x
    assume "table (update_keyword_count e h (JStr k) w) = table w"
    with assms show ?thesis by simp
  next
    fix db0 hv kv
    assume a: "table w = Some db0" "bind_int h = Inr hv" "bind_text (JStr k) = Inr kv"
      and t: "table (update_keyword_count e h (JStr k) w) = Some (upsert (clock e (ticks w)) hv kv db0)"
    from a(2) have "hv = h" by (simp add: bind_int_def split: if_splits)
    moreover from a(3) have "kv = Some k" by simp
    moreover from a(1) assms have "db0 = db" by simp
    ultimately show ?thesis using t by simp
  qed
qed

lemma ukc_ok:
  assumes "table w = Some db" "table_ok db"
  shows "\<exists>db'. table (update_keyword_count e h (JStr k) w) = Some db' \<and> table_ok db'"
  using ukc_table_str [OF assms(1), of e h k] assms(2) upsert_ok [OF assms(2), of "clock e (ticks w)" h k]
  by (elim disjE) simp_all

lemma apply_observations_ok:
  "table w = Some db \<Longrightarrow> table_ok db \<Longrightarrow>
   \<exists>db'. table (apply_observations e obs w) = Some db' \<and> table_ok db'"
proof (induction obs arbitrary: w db)
  case Nil
  then show ?case by simp
next
  case (Cons x obs)
  obtain h k where x: "x = (h, k)" by (cases x)
  from ukc_ok [OF Cons.prems, of e h k] obtain db1
    where "table (update_keyword_count e h (JStr k) w) = Some db1" "table_ok db1" by blast
  from Cons.IH [OF this] x show ?case by simp
qed

lemma upsert_counts:
  "map count (filter (matches h' (Some k')) (rows (upsert t h (Some k) db))) =
     (let old = map count (filter (matches h' (Some k')) (rows db))
      in if h' = h \<and> k' = k then (if old = [] then [1] else map (\<lambda>c. c + 1) old) else old)"
proof (cases "\<exists>r \<in> set (rows db). matches h (Some k) r")
  case True
  let ?f = "\<lambda>r. if matches h (Some k) r then r\<lparr>count := count r + 1, last_updated := t\<rparr> else r"
  let ?P = "matches h' (Some k')"
  have r: "rows (upsert t h (Some k) db) = map ?f (rows db)"
    using True by (simp add: upsert_rows)
  have pf: "?P \<circ> ?f = ?P"
    by (rule ext) simp
  have m: "map count (filter ?P (map ?f (rows db))) = map (\<lambda>r. count (?f r)) (filter ?P (rows db))"
    by (simp add: filter_map pf comp_def)
  have l: "map count (filter ?P (rows (upsert t h (Some k) db))) = map (\<lambda>r. count (?f r)) (filter ?P (rows db))"
    unfolding r by (rule m)
  show ?thesis
  proof (cases "h' = h \<and> k' = k")
    case same: True
    have "map (\<lambda>r. count (?f r)) (filter ?P (rows db)) = map (\<lambda>r. count r + 1) (filter ?P (rows db))"
      using same by (intro map_cong) auto
    also have "\<dots> = map (\<lambda>c. c + 1) (map count (filter ?P (rows db)))"
      by (simp add: comp_def)
    finally have e: "map count (filter ?P (rows (upsert t h (Some k) db))) = map (\<lambda>c. c + 1) (map count (filter ?P (rows db)))"
      using l by simp
    have ne: "map count (filter ?P (rows db)) \<noteq> []"
      using True same by (auto simp: filter_empty_conv)
    show ?thesis
      unfolding e Let_def using same ne by simp
  next
    case other: False
    have "map (\<lambda>r. count (?f r)) (filter ?P (rows db)) = map count (filter ?P (rows db))"
      using other by (intro map_cong) (auto simp: matches_def)
    with l have e: "map count (filter ?P (rows (upsert t h (Some k) db))) = map count (filter ?P (rows db))"
      by simp
    show ?thesis
      unfolding e Let_def using other by auto
  qed
next
  case False
  then have none: "filter (matches h (Some k)) (rows db) = []"
    by (auto simp: filter_empty_conv)
  from False have r: "rows (upsert t h (Some k) db) =
      rows db @ [\<lparr>row_id = Suc (last_id db), hour_of_day = h, keyword = Some k, count = 1, last_updated = t\<rparr>]"
    by (simp add: upsert_rows)
  show ?thesis
    using none by (auto simp: r Let_def matches_def)
qed

lemma ukc_counts:
  assumes "table w = Some db" and "io_fault e (txns w) = None"
    and "- (2 ^ 63) \<le> h" and "h < 2 ^ 63"
  shows "stored_counts h' k' (update_keyword_count e h (JStr k) w) =
     (let old = stored_counts h' k' w
      in if h' = h \<and> k' = k then (if old = [] then [1] else map (\<lambda>c. c + 1) old) else old)"
proof -
  have b: "bind_text (JStr k) = Inr (Some k)" by simp
  have "table (update_keyword_count e h (JStr k) w) = Some (upsert (clock e (ticks w)) h (Some k) db)"
    using assms(1) bind_int_range [OF assms(3,4)] b assms(2) by (rule ukc_no_fault)
  then show ?thesis
    using assms(1) by (simp add: stored_counts_def upsert_counts)
qed

lemma apply_observations_counts:
  assumes "\<forall>n. io_fault e n = None"
    and "\<forall>(h, k) \<in> set obs. - (2 ^ 63) \<le> h \<and> h < 2 ^ 63"
    and "table w \<noteq> None"
  shows "stored_counts h' k' (apply_observations e obs w) =
     (let old = stored_counts h' k' w; n = count_list obs (h', k')
      in if n = 0 then old else if old = [] then [int n] else map (\<lambda>c. c + int n) old)"
  using assms(2,3)
proof (induction obs arbitrary: w)
  case Nil
  then show ?case by simp
next
  case (Cons x obs)
  obtain h k where x: "x = (h, k)" by (cases x)
  from Cons.prems(2) obtain db where db: "table w = Some db" by auto
  let ?w1 = "update_keyword_count e h (JStr k) w"
  have rng: "- (2 ^ 63) \<le> h" "h < 2 ^ 63"
    using Cons.prems(1) x by auto
  have f: "io_fault e (txns w) = None"
    using assms(1) by simp
  have t1: "table ?w1 \<noteq> None"
    using ukc_table_str [OF db, of e h k] by auto
  have rest: "\<forall>(h, k) \<in> set obs. - (2 ^ 63) \<le> h \<and> h < 2 ^ 63"
    using Cons.prems(1) by simp
  note ih = Cons.IH [OF rest t1]
  note st = ukc_counts [OF db f rng, of h' k' k]
  show ?case
  proof (cases "h' = h \<and> k' = k")
    case True
    then show ?thesis
      using ih st x by (simp add: Let_def comp_def)
  next
    case False
    then show ?thesis
      using ih st x by (auto simp: Let_def)
  qed
qed


lemma counts_from_empty:
  assumes "\<forall>n. io_fault e n = None"
    and "\<forall>(h, k) \<in> set obs. 0 \<le> h \<and> h \<le> 23 \<and> k \<noteq> []"
    and "table w = Some \<lparr>rows = [], last_id = 0\<rparr>"
  shows "stored_counts h k (apply_observations e obs w) =
           (if (h, k) \<in> set obs then [int (count_list obs (h, k))] else [])"
proof -
  have rng: "\<forall>(h, k) \<in> set obs. - (2 ^ 63) \<le> h \<and> h < 2 ^ 63"
  proof (clarify, rule conjI)
    fix a b assume "(a, b) \<in> set obs"
    with assms(2) have "0 \<le> a" "a \<le> 23" by auto
    then show "- (2 ^ 63) \<le> a" "a < 2 ^ 63" by simp_all
  qed
  have t: "table w \<noteq> None" using assms(3) by simp
  have old: "stored_counts h k w = []"
    using assms(3) by (simp add: stored_counts_def)
  show ?thesis
    unfolding apply_observations_counts [OF assms(1) rng t] old Let_def
    by (simp add: count_list_0_iff)
qed

section \<open>One cycle of the consumer\<close>

lemma read_cycle_ends: "snd (read_cycle e lp w) \<noteq> None"
  by (simp add: read_cycle_def Let_def split: prod.splits sum.splits)

lemma poll_once: "poll e i lp w = (case read_cycle e lp w of (w1, r) \<Rightarrow> map_option (Pair w1) r)"
proof -
  obtain w1 r where c: "read_cycle e lp w = (w1, r)" by (cases "read_cycle e lp w")
  with read_cycle_ends [of e lp w] obtain out where "r = Some out" by auto
  with c show ?thesis by (subst poll.simps) simp
qed

declare poll_once [code]

lemma process_message_frame:
  assumes "process_message m w = (w1, r)"
  shows "table w1 = table w \<and> db_file w1 = db_file w \<and> ticks w1 = ticks w \<and> txns w1 = txns w
         \<and> opens w1 = opens w \<and> sleeps w1 = sleeps w"
  using assms
  by (auto simp: process_message_def Let_def split: json.splits option.splits if_splits)

lemma process_lines_frame:
  "process_lines e ls w = (w1, r) \<Longrightarrow> opens w1 = opens w \<and> sleeps w1 = sleeps w"
proof (induction e ls w rule: process_lines.induct)
  case (1 e w)
  then show ?case by simp
next
  case (2 e line rest w)
  show ?case
  proof (cases "strip line \<noteq> []")
    case False
    with 2 show ?thesis by simp
  next
    case True
    show ?thesis
    proof (cases "loads e (strip line)")
      case None
      with True 2 show ?thesis by simp
    next
      case (Some m)
      obtain w2 pd where pm: "process_message m w = (w2, pd)" by (cases "process_message m w")
      note f = process_message_frame [OF pm]
      show ?thesis
      proof (cases pd)
        case None
        with True Some pm 2 f show ?thesis by simp
      next
        case (Some hk)
        obtain h k where hk: "hk = (h, k)" by (cases hk)
        from True \<open>loads e (strip line) = Some m\<close> pm Some hk 2 f show ?thesis
          by (simp add: ukc_frame)
      qed
    qed
  qed
qed

lemma process_lines_exn:
  "process_lines e ls w = (w1, Some x) \<Longrightarrow> x = JSONDecodeError"
  by (induction e ls w rule: process_lines.induct)
     (auto split: if_splits option.splits prod.splits)

lemma process_lines_ok_iff:
  "snd (process_lines e ls w) = None \<longleftrightarrow>
     (\<forall>line \<in> set ls. strip line \<noteq> [] \<longrightarrow> loads e (strip line) \<noteq> None)"
  by (induction e ls w rule: process_lines.induct)
     (auto split: if_splits option.splits prod.splits)

lemma process_lines_append:
  "process_lines e (xs @ ys) w =
     (case process_lines e xs w of
        (w1, None) \<Rightarrow> process_lines e ys w1
      | (w1, Some x) \<Rightarrow> (w1, Some x))"
  by (induction e xs w rule: process_lines.induct)
     (auto split: if_splits option.splits prod.splits)


lemma init_keyword_db_frame:
  "opens (init_keyword_db e w) = opens w"
  "sleeps (init_keyword_db e w) = sleeps w"
  by (simp_all add: init_keyword_db_def connect_def Let_def)

lemma read_file_frame:
  assumes "read_file e lp w = (w1, r)"
  shows "opens w1 = opens w \<and> sleeps w1 = sleeps w"
proof (cases "live_data e")
  case Missing
  with assms show ?thesis by (simp add: read_file_def)
next
  case Denied
  with assms show ?thesis by (simp add: read_file_def)
next
  case (Readable content)
  obtain w2 x where p: "process_lines e (iter_lines [] (drop lp content)) w = (w2, x)"
    by (cases "process_lines e (iter_lines [] (drop lp content)) w")
  from assms Readable p have "w1 = w2" by (cases x) (simp_all add: read_file_def)
  with process_lines_frame [OF p] show ?thesis by simp
next
  case (Failing content)
  obtain w2 x where p: "process_lines e (iter_lines [] (drop lp content)) w = (w2, x)"
    by (cases "process_lines e (iter_lines [] (drop lp content)) w")
  from assms Failing p have "w1 = w2" by (cases x) (simp_all add: read_file_def)
  with process_lines_frame [OF p] show ?thesis by simp
qed

lemma read_file_not_found:
  "snd (read_file e lp w) = Inl FileNotFoundError \<longleftrightarrow> live_data e = Missing"
proof (cases "live_data e")
  case Missing
  then show ?thesis by (simp add: read_file_def)
next
  case Denied
  then show ?thesis by (simp add: read_file_def)
next
  case (Readable content)
  obtain w2 x where p: "process_lines e (iter_lines [] (drop lp content)) w = (w2, x)"
    by (cases "process_lines e (iter_lines [] (drop lp content)) w")
  show ?thesis
  proof (cases x)
    case None
    with Readable p show ?thesis by (simp add: read_file_def)
  next
    case (Some y)
    with p process_lines_exn [of e _ w w2 y] have "y = JSONDecodeError" by simp
    with Readable p Some show ?thesis by (simp add: read_file_def)
  qed
next
  case (Failing content)
  obtain w2 x where p: "process_lines e (iter_lines [] (drop lp content)) w = (w2, x)"
    by (cases "process_lines e (iter_lines [] (drop lp content)) w")
  show ?thesis
  proof (cases x)
    case None
    with Failing p show ?thesis by (simp add: read_file_def)
  next
    case (Some y)
    with p process_lines_exn [of e _ w w2 y] have "y = JSONDecodeError" by simp
    with Failing p Some show ?thesis by (simp add: read_file_def)
  qed
qed

lemma read_file_returns:
  "snd (read_file e lp w) = Inr n \<longleftrightarrow>
     (\<exists>content. live_data e = Readable content \<and> n = max lp (length content)
        \<and> (\<forall>line \<in> set (iter_lines [] (drop lp content)).
              strip line \<noteq> [] \<longrightarrow> loads e (strip line) \<noteq> None))"
proof (cases "live_data e")
  case Missing
  then show ?thesis by (simp add: read_file_def)
next
  case Denied
  then show ?thesis by (simp add: read_file_def)
next
  case (Readable content)
  obtain w2 x where p: "process_lines e (iter_lines [] (drop lp content)) w = (w2, x)"
    by (cases "process_lines e (iter_lines [] (drop lp content)) w")
  from process_lines_ok_iff [of e "iter_lines [] (drop lp content)" w] p
  have ok: "x = None \<longleftrightarrow> (\<forall>line \<in> set (iter_lines [] (drop lp content)).
              strip line \<noteq> [] \<longrightarrow> loads e (strip line) \<noteq> None)" by simp
  show ?thesis
  proof (cases x)
    case None
    with Readable p ok show ?thesis by (auto simp: read_file_def)
  next
    case (Some y)
    with Readable p ok show ?thesis by (auto simp: read_file_def)
  qed
next
  case (Failing content)
  obtain w2 x where p: "process_lines e (iter_lines [] (drop lp content)) w = (w2, x)"
    by (cases "process_lines e (iter_lines [] (drop lp content)) w")
  with Failing show ?thesis by (cases x) (simp_all add: read_file_def)
qed

lemma read_cycle_outcome:
  "\<exists>w1 out. read_cycle e lp w = (w1, Some out)
     \<and> opens w1 = Suc (opens w) \<and> sleeps w1 = sleeps w
     \<and> (out = Exited 10 \<longleftrightarrow> live_data e = Missing)
     \<and> (\<forall>c. out = Exited c \<longrightarrow> c = 10 \<or> c = 11)
     \<and> (\<forall>n. out = Returned n \<longleftrightarrow>
           (\<exists>content. live_data e = Readable content \<and> n = max lp (length content)
              \<and> (\<forall>line \<in> set (iter_lines [] (drop lp content)).
                    strip line \<noteq> [] \<longrightarrow> loads e (strip line) \<noteq> None)))"
proof -
  define w2 where "w2 = (logger INFO ''3. Read from live data file at position'' w)\<lparr>opens := Suc (opens w)\<rparr>"
  obtain w3 r where rf: "read_file e lp w2 = (w3, r)" by (cases "read_file e lp w2")
  have fr: "opens w3 = Suc (opens w)" "sleeps w3 = sleeps w"
    using read_file_frame [OF rf] by (simp_all add: w2_def)
  have nf: "r = Inl FileNotFoundError \<longleftrightarrow> live_data e = Missing"
    using read_file_not_found [of e lp w2] rf by simp
  have rt: "\<And>n. r = Inr n \<longleftrightarrow>
     (\<exists>content. live_data e = Readable content \<and> n = max lp (length content)
        \<and> (\<forall>line \<in> set (iter_lines [] (drop lp content)).
              strip line \<noteq> [] \<longrightarrow> loads e (strip line) \<noteq> None))"
    using read_file_returns [of e lp w2] rf by simp
  have rc: "read_cycle e lp w =
      (case r of
         Inr position \<Rightarrow> (w3, Some (Returned position))
       | Inl x \<Rightarrow> if x = FileNotFoundError
                  then (logger ERROR ''ERROR: Live data file not found'' w3, Some (Exited 10))
                  else (logger ERROR ''ERROR: Error reading from live data file'' w3, Some (Exited 11)))"
    using rf by (simp add: read_cycle_def w2_def Let_def logger_def)
  show ?thesis
  proof (cases r)
    case (Inr n)
    have "read_cycle e lp w = (w3, Some (Returned n))" using rc Inr by simp
    moreover have "live_data e \<noteq> Missing" using nf Inr by simp
    ultimately show ?thesis using fr rt Inr by auto
  next
    case (Inl x)
    show ?thesis
    proof (cases "x = FileNotFoundError")
      case True
      have "read_cycle e lp w = (logger ERROR ''ERROR: Live data file not found'' w3, Some (Exited 10))"
        using rc Inl True by simp
      moreover have "live_data e = Missing" using nf Inl True by simp
      ultimately show ?thesis using fr by auto
    next
      case False
      have "read_cycle e lp w = (logger ERROR ''ERROR: Error reading from live data file'' w3, Some (Exited 11))"
        using rc Inl False by simp
      moreover have "live_data e \<noteq> Missing" using nf Inl False by simp
      moreover have "\<And>n. r \<noteq> Inr n" using Inl by simp
      ultimately show ?thesis using fr rt by auto
    qed
  qed
qed

lemma consume_ignores_position:
  "consume_messages_from_file e i lp w = consume_messages_from_file e i 0 w"
  by (simp add: consume_messages_from_file_def)

lemma consume_outcome:
  "\<exists>w1 out. consume_messages_from_file e i lp w = Some (w1, out)
     \<and> opens w1 = Suc (opens w) \<and> sleeps w1 = sleeps w
     \<and> (out = Exited 10 \<longleftrightarrow> live_data e = Missing)
     \<and> (\<forall>c. out = Exited c \<longrightarrow> c = 10 \<or> c = 11)
     \<and> (\<forall>n. out = Returned n \<longleftrightarrow>
           (\<exists>content. live_data e = Readable content \<and> n = length content \<and> json_lines e content))"
proof -
  define w8 where "w8 =
    logger INFO ''2. Set the last position to 0 to start at the beginning of the file.''
      (init_keyword_db e
        (logger INFO ''1. Initialize the keyword database.''
          (logger INFO ''   {last_position=}''
            (logger INFO ''   {interval_secs=}''
              (logger INFO ''   {sql_path=}''
                (logger INFO ''   {live_data_path=}''
                  (logger INFO ''Called consume_messages_from_file() with:'' w)))))))"
  have c: "consume_messages_from_file e i lp w = poll e i 0 w8"
    by (simp add: consume_messages_from_file_def w8_def Let_def)
  have f: "opens w8 = opens w" "sleeps w8 = sleeps w"
    by (simp_all add: w8_def init_keyword_db_frame)
  from read_cycle_outcome [of e 0 w8] obtain w1 out where
    r: "read_cycle e 0 w8 = (w1, Some out)"
    and o: "opens w1 = Suc (opens w8)" "sleeps w1 = sleeps w8"
    and m: "out = Exited 10 \<longleftrightarrow> live_data e = Missing"
    and x: "\<forall>c. out = Exited c \<longrightarrow> c = 10 \<or> c = 11"
    and n: "\<forall>n. out = Returned n \<longleftrightarrow>
           (\<exists>content. live_data e = Readable content \<and> n = max 0 (length content)
              \<and> (\<forall>line \<in> set (iter_lines [] (drop 0 content)).
                    strip line \<noteq> [] \<longrightarrow> loads e (strip line) \<noteq> None))"
    by blast
  have "consume_messages_from_file e i lp w = Some (w1, out)"
    using c r by (simp add: poll_once)
  moreover have "\<forall>n. out = Returned n \<longleftrightarrow>
           (\<exists>content. live_data e = Readable content \<and> n = length content \<and> json_lines e content)"
    using n by (simp add: json_lines_def)
  ultimately show ?thesis
    using o f m x by simp
qed

lemma main_status:
  assumes "settings e = Some i" and "\<not> (db_file w \<and> unlink_fails e)"
  shows "\<exists>w0 w1 out. consume_messages_from_file e i 0 w0 = Some (w1, out)
           \<and> opens w0 = opens w \<and> sleeps w0 = sleeps w
           \<and> main e w = Some (logger INFO ''TRY/FINALLY: Keyword Consumer shutting down.'' w1,
                               case out of Returned position \<Rightarrow> 0 | Exited code \<Rightarrow> code)"
proof -
  define w5 where "w5 =
     logger INFO ''STEP 2. Delete any prior database file for a fresh start.''
       (logger INFO ''SUCCESS: Read environment variables.''
         (logger INFO ''STEP 1. Read environment variables using config functions.''
           (logger INFO ''This consumer tracks when different keywords are most popular.''
             (logger INFO ''Starting Keyword Popularity Consumer to run continuously.'' w))))"
  define w6 where "w6 =
     (if db_file w5
      then logger INFO ''SUCCESS: Deleted previous keyword database file.''
             (w5\<lparr>db_file := False, table := None\<rparr>)
      else w5)"
  define w9 where "w9 =
     logger INFO ''STEP 4. Begin consuming and analyzing keyword popularity.''
       (init_keyword_db e
         (logger INFO ''STEP 3. Initialize a new keyword database with an empty table.'' w6))"
  have d: "db_file w5 = db_file w" by (simp add: w5_def)
  have f: "opens w9 = opens w" "sleeps w9 = sleeps w"
    by (simp_all add: w9_def w6_def w5_def init_keyword_db_frame)
  from consume_outcome [of e i 0 w9] obtain w1 out
    where c: "consume_messages_from_file e i 0 w9 = Some (w1, out)" by blast
  have "main e w = Some (logger INFO ''TRY/FINALLY: Keyword Consumer shutting down.'' w1,
                               case out of Returned position \<Rightarrow> 0 | Exited code \<Rightarrow> code)"
    using assms d c
    unfolding main_def Let_def w5_def [symmetric] w6_def [symmetric] w9_def [symmetric]
    by (cases out) auto
  with c f show ?thesis by blast
qed

lemma main_outcome:
  assumes "settings e = Some i" and "\<not> (db_file w \<and> unlink_fails e)"
  shows "\<exists>w2. main e w =
           Some (w2, if live_data e = Missing then 10
                     else if \<exists>content. live_data e = Readable content \<and> json_lines e content then 0
                     else 11)
         \<and> opens w2 = Suc (opens w) \<and> sleeps w2 = sleeps w"
proof -
  from main_status [OF assms] obtain w0 w1 out where
    c: "consume_messages_from_file e i 0 w0 = Some (w1, out)"
    and f: "opens w0 = opens w" "sleeps w0 = sleeps w"
    and m: "main e w = Some (logger INFO ''TRY/FINALLY: Keyword Consumer shutting down.'' w1,
                               case out of Returned position \<Rightarrow> 0 | Exited code \<Rightarrow> code)"
    by blast
  from consume_outcome [of e i 0 w0] c have
    o: "opens w1 = Suc (opens w0)" "sleeps w1 = sleeps w0"
    and mi: "out = Exited 10 \<longleftrightarrow> live_data e = Missing"
    and x: "\<forall>c. out = Exited c \<longrightarrow> c = 10 \<or> c = 11"
    and n: "\<forall>n. out = Returned n \<longleftrightarrow>
           (\<exists>content. live_data e = Readable content \<and> n = length content \<and> json_lines e content)"
    by auto
  have "(case out of Returned position \<Rightarrow> 0 | Exited code \<Rightarrow> code) =
        (if live_data e = Missing then 10
         else if \<exists>content. live_data e = Readable content \<and> json_lines e content then 0
         else 11)"
  proof (cases out)
    case (Returned p)
    with n mi show ?thesis by auto
  next
    case (Exited c)
    with n mi x show ?thesis by auto
  qed
  with m o f show ?thesis by simp
qed

section \<open>Lines and the last terminator\<close>

lemma iter_lines_plain:
  "\<forall>c \<in> set s. \<not> terminator c \<Longrightarrow>
   iter_lines acc s = (if acc = [] \<and> s = [] then [] else [rev acc @ s])"
  by (induction s arbitrary: acc) (auto simp: terminator_def)

lemma iter_lines_append:
  "pre \<noteq> [] \<Longrightarrow> terminator (last pre) \<Longrightarrow> \<forall>c \<in> set frag. \<not> terminator c \<Longrightarrow>
   iter_lines acc (pre @ frag) = iter_lines acc pre @ iter_lines [] frag"
proof (induction acc pre rule: iter_lines.induct)
  case (1 acc)
  then show ?case by simp
next
  case (2 acc c cs)
  show ?case
  proof (cases "c = CHR 0x0A")
    case True
    show ?thesis
    proof (cases "cs = []")
      case True
      with \<open>c = CHR 0x0A\<close> show ?thesis by simp
    next
      case False
      with 2 True show ?thesis by simp
    qed
  next
    case nl: False
    show ?thesis
    proof (cases "c = CHR 0x0D")
      case cr: True
      show ?thesis
      proof (cases cs)
        case Nil
        have "iter_lines acc (CHR 0x0D # frag) = rev (CHR 0x0A # acc) # iter_lines [] frag"
          using "2.prems"(3) by (cases frag) (auto simp: terminator_def)
        with Nil cr show ?thesis by simp
      next
        case (Cons d ds)
        show ?thesis
        proof (cases "d = CHR 0x0A")
          case True
          show ?thesis
          proof (cases "ds = []")
            case True
            with Cons cr \<open>d = CHR 0x0A\<close> show ?thesis by simp
          next
            case False
            with 2 Cons cr nl \<open>d = CHR 0x0A\<close> show ?thesis by simp
          qed
        next
          case False
          with 2 Cons cr nl show ?thesis by simp
        qed
      qed
    next
      case False
      with nl have nt: "\<not> terminator c" by (simp add: terminator_def)
      with "2.prems" have "cs \<noteq> []" by (cases cs) auto
      with 2 nl False show ?thesis by simp
    qed
  qed
qed

lemma split_at_last_line_end:
  fixes content :: string
  defines "pre \<equiv> take (last_line_end content) content"
    and "frag \<equiv> drop (last_line_end content) content"
  shows "content = pre @ frag" "\<forall>c \<in> set frag. \<not> terminator c"
    "pre = [] \<or> terminator (last pre)"
proof -
  let ?P = "\<lambda>c. \<not> terminator c"
  have len: "last_line_end content = length (dropWhile ?P (rev content))"
  proof -
    have "length (rev content) = length (takeWhile ?P (rev content)) + length (dropWhile ?P (rev content))"
      by (metis length_append takeWhile_dropWhile_id)
    then show ?thesis by (simp add: last_line_end_def)
  qed
  have c: "content = rev (dropWhile ?P (rev content)) @ rev (takeWhile ?P (rev content))"
    by (metis rev_append rev_rev_ident takeWhile_dropWhile_id)
  have p: "pre = rev (dropWhile ?P (rev content))"
    unfolding pre_def len by (subst c) simp
  have f: "frag = rev (takeWhile ?P (rev content))"
    unfolding frag_def len by (subst c) simp
  show "content = pre @ frag" by (simp add: pre_def frag_def)
  show "\<forall>c \<in> set frag. \<not> terminator c"
    unfolding f by (auto dest: set_takeWhileD)
  show "pre = [] \<or> terminator (last pre)"
  proof (cases "dropWhile ?P (rev content)")
    case Nil
    then show ?thesis by (simp add: p)
  next
    case (Cons x xs)
    then have "\<not> ?P x" by (metis hd_dropWhile list.sel(1) list.distinct(1))
    with Cons show ?thesis by (simp add: p)
  qed
qed

lemma iter_lines_fragment:
  "iter_lines [] content =
     iter_lines [] (take (last_line_end content) content)
     @ (if last_line_end content < length content
        then [drop (last_line_end content) content] else [])"
proof -
  let ?pre = "take (last_line_end content) content"
  let ?frag = "drop (last_line_end content) content"
  note s = split_at_last_line_end [of content]
  have fr: "iter_lines [] ?frag = (if ?frag = [] then [] else [?frag])"
    using iter_lines_plain [OF s(2), of "[]"] by simp
  have le: "last_line_end content \<le> length content"
    by (simp add: last_line_end_def)
  have fe: "?frag = [] \<longleftrightarrow> \<not> last_line_end content < length content"
    using le by auto
  show ?thesis
  proof (cases "?pre = []")
    case True
    then have "?pre @ ?frag = ?frag" by (simp only: append_Nil)
    with s(1) have "content = ?frag" by (simp only:)
    then have "iter_lines [] content = iter_lines [] ?frag" by (rule arg_cong)
    with True fr fe show ?thesis by (simp del: drop_eq_Nil drop_eq_Nil2 take_eq_Nil take_eq_Nil2)
  next
    case False
    with s(3) have t: "terminator (last ?pre)" by simp
    have "iter_lines [] (?pre @ ?frag) = iter_lines [] ?pre @ iter_lines [] ?frag"
      using False t s(2) by (rule iter_lines_append)
    then have "iter_lines [] content = iter_lines [] ?pre @ iter_lines [] ?frag"
      by simp
    with fr fe show ?thesis by (simp del: drop_eq_Nil drop_eq_Nil2 take_eq_Nil take_eq_Nil2)
  qed
qed

lemma last_line_end_full:
  "last_line_end content = length content \<longleftrightarrow> content = [] \<or> terminator (last content)"
proof (cases content rule: rev_cases)
  case Nil
  then show ?thesis by (simp add: last_line_end_def)
next
  case (snoc xs x)
  then show ?thesis by (auto simp: last_line_end_def)
qed

section \<open>The hour of a timestamp, and when the storage call raises\<close>

lemma digit_range: "(v, r) \<in> set (digit lo hi s) \<Longrightarrow> lo \<le> v \<and> v \<le> hi"
  by (auto simp: digit_def Let_def split: list.splits if_splits)

lemma digits2_range:
  "(v, r) \<in> set (digits2 a b c d s) \<Longrightarrow> 10 * a + c \<le> v \<and> v \<le> 10 * b + d"
  by (fastforce simp: digits2_def dest: digit_range)

lemma re_H_range: "(v, r) \<in> set (re_H s) \<Longrightarrow> 0 \<le> v \<and> v \<le> 23"
  by (fastforce simp: re_H_def dest: digit_range digits2_range)

lemma format_regex_hour:
  "(dt, r) \<in> set (format_regex s) \<Longrightarrow> 0 \<le> hour dt \<and> hour dt \<le> 23"
  by (auto simp: format_regex_def dest: re_H_range)

lemma strptime_hour: "strptime s = Some dt \<Longrightarrow> 0 \<le> hour dt \<and> hour dt \<le> 23"
proof -
  assume a: "strptime s = Some dt"
  then obtain rest xs where "format_regex s = (dt, rest) # xs"
    by (auto simp: strptime_def split: list.splits if_splits)
  then have "(dt, rest) \<in> set (format_regex s)" by simp
  then show ?thesis by (rule format_regex_hour)
qed

lemma strptime_samples:
  "map_option hour (strptime ''2025-01-29 14:35:20'') = Some 14"
  "map_option hour (strptime ''2025-01-29 00:05:00'') = Some 0"
  "map_option hour (strptime ''2025-01-29 23:59:59'') = Some 23"
  by code_simp+

lemma update_attempt_raises_iff:
  "snd (update_attempt e h k w) \<noteq> None \<longleftrightarrow>
     (io_fault e (txns w) = Some Connect \<or> table w = None
      \<or> (\<exists>x. bind_int h = Inl x) \<or> (\<exists>x. bind_text k = Inl x)
      \<or> io_fault e (txns w) = Some Statement1
      \<or> io_fault e (txns w) = Some Commit
      \<or> (io_fault e (txns w) = Some Statement2
          \<and> (\<forall>db hv kv. table w = Some db \<and> bind_int h = Inr hv \<and> bind_text k = Inr kv
                \<longrightarrow> \<not> (\<exists>r \<in> set (rows db). matches hv kv r))))"
  by (auto simp: update_attempt_def update_transaction_def connect_def Let_def sql_update_def
      sql_insert_def filter_empty_conv
      split: if_splits option.splits sum.splits prod.splits)

lemma init_keyword_db_table:
  "io_fault e (txns w) = None \<Longrightarrow> table (init_keyword_db e w) = Some \<lparr>rows = [], last_id = 0\<rparr>"
  by (simp add: init_keyword_db_def connect_def Let_def)

lemma process_message_falsy:
  "\<not> truthy (dict_get d ''timestamp'') \<or> \<not> truthy (dict_get d ''keyword_mentioned'') \<Longrightarrow>
   snd (process_message (JObj d) w) = None"
  by (auto simp: process_message_def Let_def)

lemma process_message_unparsed:
  "dict_get d ''timestamp'' = JStr s \<Longrightarrow> strptime s = None \<Longrightarrow>
   snd (process_message (JObj d) w) = None"
  by (simp add: process_message_def Let_def)

lemma process_message_not_text:
  "\<forall>s. dict_get d ''timestamp'' \<noteq> JStr s \<Longrightarrow> snd (process_message (JObj d) w) = None"
  by (cases "dict_get d ''timestamp''") (simp_all add: process_message_def Let_def)

lemma process_message_parsed:
  "dict_get d ''timestamp'' = JStr s \<Longrightarrow> strptime s = Some dt \<Longrightarrow> s \<noteq> [] \<Longrightarrow>
   truthy (dict_get d ''keyword_mentioned'') \<Longrightarrow>
   snd (process_message (JObj d) w) = Some (hour dt, dict_get d ''keyword_mentioned'')"
  by (simp add: process_message_def Let_def)

lemma strptime_empty: "strptime [] = None"
  by code_simp

lemma process_message_sample:
  assumes "map_option hour (strptime s) = Some n" 
    and "dict_get d ''timestamp'' = JStr s" and "truthy (dict_get d ''keyword_mentioned'')"
  shows "snd (process_message (JObj d) w) = Some (n, dict_get d ''keyword_mentioned'')"
proof -
  from assms(1) obtain dt where dt: "strptime s = Some dt" "hour dt = n" by auto
  with strptime_empty have "s \<noteq> []" by auto
  from process_message_parsed [OF assms(2) dt(1) this assms(3)] dt(2) show ?thesis by simp
qed

lemma process_lines_skip:
  assumes "strip line \<noteq> []" and "loads e (strip line) = Some m"
    and "snd (process_message m w) = None"
  shows "process_lines e (line # rest) w = process_lines e rest (fst (process_message m w))"
    and "table (fst (process_message m w)) = table w"
    and "txns (fst (process_message m w)) = txns w"
proof -
  obtain w1 r where p: "process_message m w = (w1, r)" by (cases "process_message m w")
  with assms(3) have r: "r = None" by simp
  from assms(1,2) p r show "process_lines e (line # rest) w = process_lines e rest (fst (process_message m w))"
    by simp
  from process_message_frame [OF p] p show "table (fst (process_message m w)) = table w"
    and "txns (fst (process_message m w)) = txns w" by simp_all
qed

lemma read_file_fragment:
  assumes "live_data e = Readable content"
  shows "read_file e 0 w0 =
     (case process_lines e (iter_lines [] (take (last_line_end content) content)) w0 of
        (w1, Some x) \<Rightarrow> (w1, Inl x)
      | (w1, None) \<Rightarrow>
          (case process_lines e (if last_line_end content < length content
                                 then [drop (last_line_end content) content] else []) w1 of
             (w2, Some x) \<Rightarrow> (w2, Inl x)
           | (w2, None) \<Rightarrow> (w2, Inr (length content))))"
proof -
  let ?a = "iter_lines [] (take (last_line_end content) content)"
  let ?b = "if last_line_end content < length content
            then [drop (last_line_end content) content] else []"
  have "iter_lines [] content = ?a @ ?b" by (rule iter_lines_fragment)
  then have "read_file e 0 w0 =
     (case process_lines e (?a @ ?b) w0 of
        (w1, Some x) \<Rightarrow> (w1, Inl x)
      | (w1, None) \<Rightarrow> (w1, Inr (length content)))"
    using assms by (simp add: read_file_def)
  then show ?thesis
    unfolding process_lines_append
    by (simp split: prod.splits option.splits)
qed

lemma bad_line_exits:
  assumes "live_data e = Readable content" and "\<not> json_lines e content"
  shows "\<exists>w1. consume_messages_from_file e i lp w = Some (w1, Exited 11)"
proof -
  from consume_outcome [of e i lp w] obtain w1 out where
    c: "consume_messages_from_file e i lp w = Some (w1, out)"
    and mi: "out = Exited 10 \<longleftrightarrow> live_data e = Missing"
    and x: "\<forall>c. out = Exited c \<longrightarrow> c = 10 \<or> c = 11"
    and n: "\<forall>n. out = Returned n \<longleftrightarrow>
           (\<exists>content. live_data e = Readable content \<and> n = length content \<and> json_lines e content)"
    by blast
  have "out = Exited 11"
  proof (cases out)
    case (Returned p)
    with n assms show ?thesis by auto
  next
    case (Exited k)
    with mi x assms show ?thesis by auto
  qed
  with c show ?thesis by simp
qed

lemma process_lines_stops:
  assumes "strip bad \<noteq> []" and "loads e (strip bad) = None"
  shows "process_lines e (pre @ bad # rest) w = process_lines e (pre @ [bad]) w"
  using assms
  by (simp add: process_lines_append split: prod.splits option.splits)

section \<open>What one pass over the file does to the storage\<close>

lemma process_message_key:
  "snd (process_message m w) = snd (process_message m w')"
  by (simp add: process_message_def Let_def split: json.splits option.splits)

lemma same_store_logger [simp]:
  "same_store (logger lv m w) w' = same_store w w'"
  "same_store w (logger lv m w') = same_store w w'"
  by (simp_all add: same_store_def)

lemma same_store_refl [simp]: "same_store w w"
  by (simp add: same_store_def)

lemma same_store_opens [simp]:
  "same_store (w\<lparr>opens := n\<rparr>) w' = same_store w w'"
  by (simp add: same_store_def)

lemma init_same_store:
  "same_store w w' \<Longrightarrow> same_store (init_keyword_db e w) (init_keyword_db e w')"
  by (simp add: same_store_def init_keyword_db_def connect_def Let_def)

lemma ukc_same_store:
  assumes "same_store w w'"
  shows "same_store (update_keyword_count e h k w) (update_keyword_count e h k w')"
proof -
  from assms have t: "table w = table w'" and c: "ticks w = ticks w'" and x: "txns w = txns w'"
    by (simp_all add: same_store_def)
  have r: "snd (update_attempt e h k w) \<noteq> None \<longleftrightarrow> snd (update_attempt e h k w') \<noteq> None"
    unfolding update_attempt_raises_iff t x ..
  have "table (update_keyword_count e h k w) = table (update_keyword_count e h k w')"
  proof (cases "snd (update_attempt e h k w) = None")
    case True
    with r have True': "snd (update_attempt e h k w') = None" by simp
    from ukc_cases [of e h k w] True obtain db hv kv where
      a: "table w = Some db" "bind_int h = Inr hv" "bind_text k = Inr kv"
      "table (update_keyword_count e h k w) = Some (upsert (clock e (ticks w)) hv kv db)"
      by auto
    from ukc_cases [of e h k w'] True' obtain db' hv' kv' where
      b: "table w' = Some db'" "bind_int h = Inr hv'" "bind_text k = Inr kv'"
      "table (update_keyword_count e h k w') = Some (upsert (clock e (ticks w')) hv' kv' db')"
      by auto
    from a b t c show ?thesis by simp
  next
    case False
    with r have False': "snd (update_attempt e h k w') \<noteq> None" by simp
    from ukc_cases [of e h k w] False have "table (update_keyword_count e h k w) = table w"
      by auto
    moreover from ukc_cases [of e h k w'] False' have "table (update_keyword_count e h k w') = table w'"
      by auto
    ultimately show ?thesis using t by simp
  qed
  with c x show ?thesis by (simp add: same_store_def ukc_frame)
qed

lemma apply_keys_counters:
  "ticks (apply_keys e obs w) = ticks w + length obs"
  "txns (apply_keys e obs w) = txns w + length obs"
  by (induction e obs w rule: apply_keys.induct) (simp_all add: ukc_frame)

lemma process_lines_pass:
  assumes "\<forall>line \<in> set ls. strip line \<noteq> [] \<longrightarrow> loads e (strip line) \<noteq> None"
    and "same_store w w'"
  shows "same_store (fst (process_lines e ls w)) (apply_keys e (List.map_filter (line_key e) ls) w')"
  using assms
proof (induction ls arbitrary: w w')
  case Nil
  then show ?case by (simp add: map_filter_simps)
next
  case (Cons line rest)
  from Cons.prems(1) have rest: "\<forall>line \<in> set rest. strip line \<noteq> [] \<longrightarrow> loads e (strip line) \<noteq> None"
    by simp
  show ?case
  proof (cases "strip line = []")
    case True
    then have "line_key e line = None" by (simp add: line_key_def)
    with True Cons.IH [OF rest Cons.prems(2)] show ?thesis
      by (simp add: map_filter_simps)
  next
    case False
    with Cons.prems(1) obtain m where m: "loads e (strip line) = Some m" by auto
    obtain w1 r where p: "process_message m w = (w1, r)" by (cases "process_message m w")
    from process_message_frame [OF p] Cons.prems(2) have s1: "same_store w1 w'"
      by (simp add: same_store_def)
    have k: "line_key e line = r"
      using False m p process_message_key [of m process_start w] by (simp add: line_key_def)
    show ?thesis
    proof (cases r)
      case None
      with False m p k Cons.IH [OF rest s1] show ?thesis
        by (simp add: map_filter_simps)
    next
      case (Some hk)
      obtain h kw where hk: "hk = (h, kw)" by (cases hk)
      from ukc_same_store [OF s1, of e h kw]
      have "same_store (update_keyword_count e h kw w1) (update_keyword_count e h kw w')" .
      from Cons.IH [OF rest this] False m p k Some hk show ?thesis
        by (simp add: map_filter_simps)
    qed
  qed
qed

lemma consume_pass:
  assumes "live_data e = Readable content" and "json_lines e content"
  shows "\<exists>w1. consume_messages_from_file e i lp w = Some (w1, Returned (length content))
           \<and> same_store w1 (apply_keys e (observations e content) (init_keyword_db e w))"
proof -
  define w8 where "w8 =
    logger INFO ''2. Set the last position to 0 to start at the beginning of the file.''
      (init_keyword_db e
        (logger INFO ''1. Initialize the keyword database.''
          (logger INFO ''   {last_position=}''
            (logger INFO ''   {interval_secs=}''
              (logger INFO ''   {sql_path=}''
                (logger INFO ''   {live_data_path=}''
                  (logger INFO ''Called consume_messages_from_file() with:'' w)))))))"
  define w2 where "w2 = (logger INFO ''3. Read from live data file at position'' w8)\<lparr>opens := Suc (opens w8)\<rparr>"
  have s8: "same_store w8 (init_keyword_db e w)"
    unfolding w8_def same_store_logger by (rule init_same_store) simp
  have s2: "same_store w2 (init_keyword_db e w)"
    using s8 by (simp add: w2_def logger_def same_store_def)
  have ok: "\<forall>line \<in> set (iter_lines [] content). strip line \<noteq> [] \<longrightarrow> loads e (strip line) \<noteq> None"
    using assms(2) by (simp add: json_lines_def)
  obtain w3 x where p: "process_lines e (iter_lines [] content) w2 = (w3, x)"
    by (cases "process_lines e (iter_lines [] content) w2")
  from process_lines_ok_iff [of e "iter_lines [] content" w2] ok p have x: "x = None" by simp
  from process_lines_pass [OF ok s2] p
  have s3: "same_store w3 (apply_keys e (observations e content) (init_keyword_db e w))"
    by (simp add: observations_def)
  have "read_file e 0 w2 = (w3, Inr (length content))"
    using assms(1) p x by (simp add: read_file_def)
  then have "read_cycle e 0 w8 = (w3, Some (Returned (length content)))"
    by (simp add: read_cycle_def w2_def Let_def logger_def)
  then have "poll e i 0 w8 = Some (w3, Returned (length content))"
    by (simp add: poll_once)
  moreover have "consume_messages_from_file e i lp w = poll e i 0 w8"
    by (simp add: consume_messages_from_file_def w8_def Let_def)
  ultimately show ?thesis using s3 by simp
qed


lemma init_keyword_db_counters:
  "ticks (init_keyword_db e w) = ticks w"
  "txns (init_keyword_db e w) = Suc (txns w)"
  by (simp_all add: init_keyword_db_def connect_def Let_def)

lemma process_message_Some:
  assumes "snd (process_message m w) = Some (h, kw)"
  shows "0 \<le> h \<and> h \<le> 23 \<and> truthy kw"
proof -
  from assms obtain d where d: "m = JObj d"
    by (cases m) (simp_all add: process_message_def)
  from assms d have t: "truthy (dict_get d ''timestamp'')" "truthy (dict_get d ''keyword_mentioned'')"
    by (auto simp: process_message_def Let_def split: if_splits)
  from assms d t obtain ts where ts: "dict_get d ''timestamp'' = JStr ts"
    by (cases "dict_get d ''timestamp''") (simp_all add: process_message_def Let_def)
  from assms d t ts obtain dt where dt: "strptime ts = Some dt"
    by (cases "strptime ts") (simp_all add: process_message_def Let_def)
  from assms d t ts dt have "h = hour dt" "kw = dict_get d ''keyword_mentioned''"
    by (simp_all add: process_message_def Let_def)
  with strptime_hour [OF dt] t show ?thesis by simp
qed

lemma observations_valid:
  assumes "(h, kw) \<in> set (observations e content)"
  shows "0 \<le> h \<and> h \<le> 23 \<and> truthy kw"
proof -
  from assms obtain line where "line_key e line = Some (h, kw)"
    by (auto simp: observations_def List.map_filter_def)
  then obtain m where "snd (process_message m process_start) = Some (h, kw)"
    by (auto simp: line_key_def split: if_splits option.splits)
  then show ?thesis by (rule process_message_Some)
qed

lemma apply_keys_text:
  "apply_keys e (map (\<lambda>(h, k). (h, JStr k)) obs) w = apply_observations e obs w"
  by (induction e obs w rule: apply_observations.induct) simp_all

lemma stored_counts_same_store:
  "same_store w w' \<Longrightarrow> stored_counts h k w = stored_counts h k w'"
  by (simp add: same_store_def stored_counts_def)

section \<open>The claims\<close>

text \<open>
  C1 says that a line that is no JSON is logged and skipped, and that the lines after
  it are still processed. The program calls \<^verbatim>\<open>json.loads\<close> outside
  \<^verbatim>\<open>process_message\<close>, whose handler skips a bad record, so the exception reaches
  the handler of the read: on a file whose first line is \<^verbatim>\<open>not json\<close> and whose
  second line is the record of the scenario, the call exits with 11, the record of
  the second line is never counted, and the process ends with the status 11.
\<close>

theorem malformed_line_is_fatal:
  "map_option snd
     (consume_messages_from_file
        (sample_env no_fault (Readable (''not json\<newline>'' @ meme_line @ ''\<newline>''))) 5 0 process_start)
   = Some (Exited 11)
   \<and> map_option (stored_counts 14 ''meme'' \<circ> fst)
     (consume_messages_from_file
        (sample_env no_fault (Readable (''not json\<newline>'' @ meme_line @ ''\<newline>''))) 5 0 process_start)
   = Some []
   \<and> map_option snd
     (main (sample_env no_fault (Readable (''not json\<newline>'' @ meme_line @ ''\<newline>''))) process_start)
   = Some 11"
  by code_simp

text \<open>
  C2. For every table and every call \<^verbatim>\<open>update_keyword_count(hour, keyword)\<close> that the
  storage engine carries out (the hour a 64-bit integer, the keyword a text, the count
  of the key's row below the largest 64-bit integer): when the key has a row, the
  count of that row becomes \<open>count + 1\<close> and its \<open>last_updated\<close> the current time;
  otherwise a row with count 1 and the current time is added after the others. The
  rows of other keys stay as they are, in their places.
\<close>

theorem update_keyword_count_upsert:
  assumes "table w = Some db"
    and "io_fault e (txns w) = None"
    and "- (2 ^ 63) \<le> h" and "h < 2 ^ 63"
    and "\<forall>r \<in> set (rows db). hour_of_day r = h \<and> keyword r = Some k \<longrightarrow> count r < 2 ^ 63 - 1"
  shows "\<exists>db'. table (update_keyword_count e h (JStr k) w) = Some db' \<and>
           (if \<exists>r \<in> set (rows db). hour_of_day r = h \<and> keyword r = Some k
            then rows db' =
                   map (\<lambda>r. if hour_of_day r = h \<and> keyword r = Some k
                             then r\<lparr>count := count r + 1, last_updated := clock e (ticks w)\<rparr>
                             else r) (rows db)
            else rows db' =
                   rows db @ [\<lparr>row_id = Suc (last_id db), hour_of_day = h, keyword = Some k,
                               count = 1, last_updated = clock e (ticks w)\<rparr>])
           \<and> filter (\<lambda>r. \<not> (hour_of_day r = h \<and> keyword r = Some k)) (rows db') =
               filter (\<lambda>r. \<not> (hour_of_day r = h \<and> keyword r = Some k)) (rows db)"
proof -
  let ?key = "\<lambda>r. hour_of_day r = h \<and> keyword r = Some k"
  let ?bump = "\<lambda>r. if ?key r then r\<lparr>count := count r + 1, last_updated := clock e (ticks w)\<rparr> else r"
  have b: "bind_text (JStr k) = Inr (Some k)" by simp
  have t: "table (update_keyword_count e h (JStr k) w) = Some (upsert (clock e (ticks w)) h (Some k) db)"
    using assms(1) bind_int_range [OF assms(3,4)] b assms(2) by (rule ukc_no_fault)
  have others: "filter (\<lambda>r. \<not> ?key r) (map ?bump rs) = filter (\<lambda>r. \<not> ?key r) rs" for rs
    by (induction rs) simp_all
  show ?thesis
  proof (cases "\<exists>r \<in> set (rows db). ?key r")
    case True
    then have "rows (upsert (clock e (ticks w)) h (Some k) db) = map ?bump (rows db)"
      by (simp add: upsert_rows matches_Some)
    with t True others [of "rows db"] show ?thesis by simp
  next
    case False
    then have "rows (upsert (clock e (ticks w)) h (Some k) db) =
        rows db @ [\<lparr>row_id = Suc (last_id db), hour_of_day = h, keyword = Some k,
                    count = 1, last_updated = clock e (ticks w)\<rparr>]"
      by (simp add: upsert_rows matches_Some)
    with t False show ?thesis by simp
  qed
qed

theorem update_keyword_count_upsert_witness:
  "map_option rows
     (table (update_keyword_count (sample_env no_fault (Readable [])) 14 (JStr ''meme'')
        (update_keyword_count (sample_env no_fault (Readable [])) 14 (JStr ''meme'')
           (update_keyword_count (sample_env no_fault (Readable [])) 9 (JStr ''cat'')
              (init_keyword_db (sample_env no_fault (Readable [])) process_start)))))
   = Some [\<lparr>row_id = 1, hour_of_day = 9, keyword = Some ''cat'', count = 1,
             last_updated = ''2025-01-29 12:00:00''\<rparr>,
           \<lparr>row_id = 2, hour_of_day = 14, keyword = Some ''meme'', count = 2,
             last_updated = ''2025-01-29 12:00:00''\<rparr>]"
proof -
  let ?e = "sample_env no_fault (Readable [])"
  let ?w = "update_keyword_count ?e 14 (JStr ''meme'')
              (update_keyword_count ?e 9 (JStr ''cat'') (init_keyword_db ?e process_start))"
  let ?db = "\<lparr>rows = [\<lparr>row_id = 1, hour_of_day = 9, keyword = Some ''cat'', count = 1,
                         last_updated = ''2025-01-29 12:00:00''\<rparr>,
                       \<lparr>row_id = 2, hour_of_day = 14, keyword = Some ''meme'', count = 1,
                         last_updated = ''2025-01-29 12:00:00''\<rparr>],
               last_id = 2\<rparr>"
  have t: "table ?w = Some ?db" by code_simp
  have f: "io_fault ?e (txns ?w) = None" by (simp add: sample_env_def no_fault_def)
  have c: "clock ?e (ticks ?w) = ''2025-01-29 12:00:00''" by (simp add: sample_env_def)
  have b: "\<forall>r \<in> set (rows ?db). hour_of_day r = 14 \<and> keyword r = Some ''meme'' \<longrightarrow> count r < 2 ^ 63 - 1"
    by simp
  from update_keyword_count_upsert [OF t f _ _ b]
  show ?thesis unfolding c by auto
qed

text \<open>
  C3. Start from the table as \<^verbatim>\<open>init_keyword_db\<close> creates it and apply any finite
  sequence of valid observations (an hour from 0 to 23, a keyword that is not empty)
  by \<^verbatim>\<open>update_keyword_count\<close>, with a storage engine that does not fail and fewer
  than \<open>2^63\<close> observations. Then every key that was observed has exactly one row,
  whose count is the number of times the key occurs in the sequence, a key that was not
  observed has no row, and every permutation of the sequence ends in the same counts.
\<close>

theorem counts_equal_observations:
  assumes "\<forall>n. io_fault e n = None"
    and "\<forall>(h, k) \<in> set obs. 0 \<le> h \<and> h \<le> 23 \<and> k \<noteq> []"
    and "length obs < 2 ^ 63"
  shows "stored_counts h k (apply_observations e obs (init_keyword_db e w)) =
           (if (h, k) \<in> set obs then [int (count_list obs (h, k))] else [])
         \<and> (\<forall>obs'. mset obs' = mset obs \<longrightarrow>
               stored_counts h k (apply_observations e obs' (init_keyword_db e w)) =
               stored_counts h k (apply_observations e obs (init_keyword_db e w)))"
proof (intro conjI allI impI)
  have t: "table (init_keyword_db e w) = Some \<lparr>rows = [], last_id = 0\<rparr>"
    using assms(1) by (simp add: init_keyword_db_table)
  show a: "stored_counts h k (apply_observations e obs (init_keyword_db e w)) =
           (if (h, k) \<in> set obs then [int (count_list obs (h, k))] else [])"
    using assms(1,2) t by (rule counts_from_empty)
  fix obs' :: "(int \<times> string) list"
  assume p: "mset obs' = mset obs"
  then have s: "set obs' = set obs" by (rule mset_eq_setD)
  from p have c: "count_list obs' (h, k) = count_list obs (h, k)"
    by (metis count_mset)
  have v: "\<forall>(h, k) \<in> set obs'. 0 \<le> h \<and> h \<le> 23 \<and> k \<noteq> []"
    using assms(2) s by simp
  show "stored_counts h k (apply_observations e obs' (init_keyword_db e w)) =
        stored_counts h k (apply_observations e obs (init_keyword_db e w))"
    unfolding a counts_from_empty [OF assms(1) v t] s c ..
qed

theorem counts_equal_observations_witness:
  "stored_counts 14 ''meme''
     (apply_observations (sample_env no_fault (Readable []))
        [(14, ''meme''), (9, ''cat''), (14, ''meme'')]
        (init_keyword_db (sample_env no_fault (Readable [])) process_start)) = [2]
   \<and> stored_counts 14 ''meme''
     (apply_observations (sample_env no_fault (Readable []))
        [(9, ''cat''), (14, ''meme''), (14, ''meme'')]
        (init_keyword_db (sample_env no_fault (Readable [])) process_start)) = [2]"
proof -
  let ?e = "sample_env no_fault (Readable [])"
  let ?obs = "[(14, ''meme''), (9, ''cat''), (14::int, ''meme'')]"
  let ?obs' = "[(9, ''cat''), (14, ''meme''), (14::int, ''meme'')]"
  have f: "\<forall>n. io_fault ?e n = None"
    by (simp add: sample_env_def no_fault_def)
  have v: "\<forall>(h, k) \<in> set ?obs. 0 \<le> h \<and> h \<le> 23 \<and> k \<noteq> []" by simp
  have l: "length ?obs < 2 ^ 63" by simp
  have p: "mset ?obs' = mset ?obs" by simp
  note th = counts_equal_observations [OF f v l, of 14 "''meme''" process_start]
  from th have a: "stored_counts 14 ''meme'' (apply_observations ?e ?obs (init_keyword_db ?e process_start)) = [2]"
    by simp
  from th p have "stored_counts 14 ''meme'' (apply_observations ?e ?obs' (init_keyword_db ?e process_start)) =
        stored_counts 14 ''meme'' (apply_observations ?e ?obs (init_keyword_db ?e process_start))"
    by blast
  with a show ?thesis by simp
qed

text \<open>
  C4. For every call, \<^verbatim>\<open>consume_messages_from_file\<close> does what it does for the
  position 0, whatever position it is given. It ends: it opens the file once and never
  sleeps. When the file is read to its end (it is readable and each line that is not
  blank is JSON), the call returns the offset of the end of the file after one pass
  over all the lines from the start of the file: the table is the table that
  \<^verbatim>\<open>init_keyword_db\<close> and then one call of \<^verbatim>\<open>update_keyword_count\<close> for the key
  of each line, in the order of the lines, leave; the clock was read once for each
  key, and one connection was opened for the initialization and one for each key. With
  a storage that does not fail and keywords that are texts, the count stored for a key
  is the number of lines that give the key.
\<close>

theorem consume_single_pass:
  "consume_messages_from_file e i lp w = consume_messages_from_file e i 0 w
   \<and> (\<exists>w1 out. consume_messages_from_file e i lp w = Some (w1, out)
         \<and> opens w1 = Suc (opens w) \<and> sleeps w1 = sleeps w
         \<and> (\<forall>content. live_data e = Readable content \<and> json_lines e content
               \<longrightarrow> out = Returned (length content)
                   \<and> table w1 = table (apply_keys e (observations e content) (init_keyword_db e w))
                   \<and> ticks w1 = ticks w + length (observations e content)
                   \<and> txns w1 = Suc (txns w) + length (observations e content)
                   \<and> (\<forall>obs. (\<forall>n. io_fault e n = None)
                          \<and> observations e content = map (\<lambda>(h, k). (h, JStr k)) obs
                        \<longrightarrow> (\<forall>h k. stored_counts h k w1 =
                                (if (h, k) \<in> set obs then [int (count_list obs (h, k))] else [])))))"
proof -
  from consume_outcome [of e i lp w] obtain w1 out where
    c: "consume_messages_from_file e i lp w = Some (w1, out)"
    and o: "opens w1 = Suc (opens w)" "sleeps w1 = sleeps w"
    by blast
  have pass: "out = Returned (length content)
        \<and> table w1 = table (apply_keys e (observations e content) (init_keyword_db e w))
        \<and> ticks w1 = ticks w + length (observations e content)
        \<and> txns w1 = Suc (txns w) + length (observations e content)
        \<and> (\<forall>obs. (\<forall>n. io_fault e n = None)
               \<and> observations e content = map (\<lambda>(h, k). (h, JStr k)) obs
             \<longrightarrow> (\<forall>h k. stored_counts h k w1 =
                     (if (h, k) \<in> set obs then [int (count_list obs (h, k))] else [])))"
    if r: "live_data e = Readable content" and j: "json_lines e content" for content
  proof -
    let ?w = "apply_keys e (observations e content) (init_keyword_db e w)"
    from consume_pass [OF r j, of i lp w] c have out: "out = Returned (length content)"
      and s: "same_store w1 ?w" by auto
    from s have t: "table w1 = table ?w" and k: "ticks w1 = ticks ?w" and x: "txns w1 = txns ?w"
      by (simp_all add: same_store_def)
    have counts: "stored_counts h k w1 =
                     (if (h, k) \<in> set obs then [int (count_list obs (h, k))] else [])"
      if f: "\<forall>n. io_fault e n = None"
        and ob: "observations e content = map (\<lambda>(h, k). (h, JStr k)) obs" for obs h k
    proof -
      have v: "\<forall>(h, k) \<in> set obs. 0 \<le> h \<and> h \<le> 23 \<and> k \<noteq> []"
      proof (clarify)
        fix a b assume "(a, b) \<in> set obs"
        then have "(a, JStr b) \<in> set (observations e content)"
          unfolding ob by force
        from observations_valid [OF this] show "0 \<le> a \<and> a \<le> 23 \<and> b \<noteq> []" by simp
      qed
      have ti: "table (init_keyword_db e w) = Some \<lparr>rows = [], last_id = 0\<rparr>"
        using f by (simp add: init_keyword_db_table)
      have "stored_counts h k w1 = stored_counts h k ?w"
        using s by (rule stored_counts_same_store)
      also have "?w = apply_observations e obs (init_keyword_db e w)"
        unfolding ob by (rule apply_keys_text)
      also have "stored_counts h k (apply_observations e obs (init_keyword_db e w)) =
                     (if (h, k) \<in> set obs then [int (count_list obs (h, k))] else [])"
        using f v ti by (rule counts_from_empty)
      finally show ?thesis .
    qed
    from out t k x counts show ?thesis
      by (simp add: apply_keys_counters init_keyword_db_counters)
  qed
  from c o pass consume_ignores_position [of e i lp w] show ?thesis by blast
qed

theorem consume_single_pass_witness:
  "consume_messages_from_file
     (sample_env no_fault (Readable (meme_line @ ''\<newline>'' @ meme_line @ ''\<newline>''))) 5 40 process_start
   = consume_messages_from_file
     (sample_env no_fault (Readable (meme_line @ ''\<newline>'' @ meme_line @ ''\<newline>''))) 5 0 process_start
   \<and> (\<exists>w1. consume_messages_from_file
          (sample_env no_fault (Readable (meme_line @ ''\<newline>'' @ meme_line @ ''\<newline>''))) 5 40 process_start
        = Some (w1, Returned 126) \<and> opens w1 = 1 \<and> sleeps w1 = 0
        \<and> ticks w1 = 2 \<and> txns w1 = 3 \<and> stored_counts 14 ''meme'' w1 = [2])"
proof -
  let ?c = "meme_line @ ''\<newline>'' @ meme_line @ ''\<newline>''"
  let ?e = "sample_env no_fault (Readable ?c)"
  let ?obs = "[(14::int, ''meme''), (14, ''meme'')]"
  have l: "live_data ?e = Readable ?c" by (simp add: sample_env_def)
  have j: "json_lines ?e ?c" by code_simp
  have n: "length ?c = 126" by code_simp
  have f: "\<forall>n. io_fault ?e n = None" by (simp add: sample_env_def no_fault_def)
  have ob: "observations ?e ?c = map (\<lambda>(h, k). (h, JStr k)) ?obs" by code_simp
  have len: "length (observations ?e ?c) = 2" unfolding ob by simp
  have o: "opens process_start = 0" "sleeps process_start = 0" "ticks process_start = 0"
    "txns process_start = 0" by (simp_all add: process_start_def)
  from consume_single_pass [of ?e 5 40 process_start] obtain w1 out where
    eq: "consume_messages_from_file ?e 5 40 process_start = consume_messages_from_file ?e 5 0 process_start"
    and c: "consume_messages_from_file ?e 5 40 process_start = Some (w1, out)"
    and op: "opens w1 = Suc (opens process_start)" "sleeps w1 = sleeps process_start"
    and p: "\<forall>content. live_data ?e = Readable content \<and> json_lines ?e content
               \<longrightarrow> out = Returned (length content)
                   \<and> table w1 = table (apply_keys ?e (observations ?e content) (init_keyword_db ?e process_start))
                   \<and> ticks w1 = ticks process_start + length (observations ?e content)
                   \<and> txns w1 = Suc (txns process_start) + length (observations ?e content)
                   \<and> (\<forall>obs. (\<forall>n. io_fault ?e n = None)
                          \<and> observations ?e content = map (\<lambda>(h, k). (h, JStr k)) obs
                        \<longrightarrow> (\<forall>h k. stored_counts h k w1 =
                                (if (h, k) \<in> set obs then [int (count_list obs (h, k))] else [])))"
    by blast
  from p l j have out: "out = Returned (length ?c)"
    and t: "ticks w1 = ticks process_start + length (observations ?e ?c)"
    and x: "txns w1 = Suc (txns process_start) + length (observations ?e ?c)"
    and cn: "\<forall>obs. (\<forall>n. io_fault ?e n = None)
                 \<and> observations ?e ?c = map (\<lambda>(h, k). (h, JStr k)) obs
               \<longrightarrow> (\<forall>h k. stored_counts h k w1 =
                       (if (h, k) \<in> set obs then [int (count_list obs (h, k))] else []))"
    by blast+
  from cn f ob have "stored_counts 14 ''meme'' w1 =
       (if (14, ''meme'') \<in> set ?obs then [int (count_list ?obs (14, ''meme''))] else [])"
    by blast
  then have s: "stored_counts 14 ''meme'' w1 = [2]" by simp
  from eq c out n op o t x len s show ?thesis by simp
qed

text \<open>
  C5. For every message dict, \<^verbatim>\<open>process_message\<close> returns \<^verbatim>\<open>None\<close> when the timestamp
  or the keyword is absent or empty (not true, for Python), and when the timestamp is
  no text that \<^verbatim>\<open>strptime\<close> parses in the format \<^verbatim>\<open>%Y-%m-%d %H:%M:%S\<close>; otherwise
  it returns the hour of the timestamp, from 0 to 23, with the keyword. The timestamps
  \<^verbatim>\<open>2025-01-29 14:35:20\<close>, \<^verbatim>\<open>2025-01-29 00:05:00\<close> and \<^verbatim>\<open>2025-01-29 23:59:59\<close> give
  the hours 14, 0 and 23. A line whose message gives \<^verbatim>\<open>None\<close> opens no connection to
  the storage and leaves the table as it is; the loop goes on with the next line.
\<close>

theorem process_message_result:
  "(map_of d ''timestamp'' = None \<or> map_of d ''keyword_mentioned'' = None
      \<or> \<not> truthy (dict_get d ''timestamp'') \<or> \<not> truthy (dict_get d ''keyword_mentioned'')
      \<longrightarrow> snd (process_message (JObj d) w) = None)
   \<and> ((\<forall>s. dict_get d ''timestamp'' = JStr s \<longrightarrow> strptime s = None)
      \<longrightarrow> snd (process_message (JObj d) w) = None)
   \<and> (\<forall>s dt. dict_get d ''timestamp'' = JStr s \<and> strptime s = Some dt
         \<and> truthy (dict_get d ''keyword_mentioned'')
        \<longrightarrow> snd (process_message (JObj d) w) = Some (hour dt, dict_get d ''keyword_mentioned'')
            \<and> 0 \<le> hour dt \<and> hour dt \<le> 23)
   \<and> (truthy (dict_get d ''keyword_mentioned'') \<longrightarrow>
        (dict_get d ''timestamp'' = JStr ''2025-01-29 14:35:20''
           \<longrightarrow> snd (process_message (JObj d) w) = Some (14, dict_get d ''keyword_mentioned''))
      \<and> (dict_get d ''timestamp'' = JStr ''2025-01-29 00:05:00''
           \<longrightarrow> snd (process_message (JObj d) w) = Some (0, dict_get d ''keyword_mentioned''))
      \<and> (dict_get d ''timestamp'' = JStr ''2025-01-29 23:59:59''
           \<longrightarrow> snd (process_message (JObj d) w) = Some (23, dict_get d ''keyword_mentioned'')))
   \<and> (\<forall>e line rest m.
         strip line \<noteq> [] \<and> loads e (strip line) = Some m \<and> snd (process_message m w) = None
        \<longrightarrow> process_lines e (line # rest) w = process_lines e rest (fst (process_message m w))
            \<and> table (fst (process_message m w)) = table w
            \<and> txns (fst (process_message m w)) = txns w)"
proof (intro conjI)
  show "map_of d ''timestamp'' = None \<or> map_of d ''keyword_mentioned'' = None
      \<or> \<not> truthy (dict_get d ''timestamp'') \<or> \<not> truthy (dict_get d ''keyword_mentioned'')
      \<longrightarrow> snd (process_message (JObj d) w) = None"
  proof
    assume "map_of d ''timestamp'' = None \<or> map_of d ''keyword_mentioned'' = None
      \<or> \<not> truthy (dict_get d ''timestamp'') \<or> \<not> truthy (dict_get d ''keyword_mentioned'')"
    then have "\<not> truthy (dict_get d ''timestamp'') \<or> \<not> truthy (dict_get d ''keyword_mentioned'')"
      by (auto simp: dict_get_def)
    then show "snd (process_message (JObj d) w) = None" by (rule process_message_falsy)
  qed
  show "(\<forall>s. dict_get d ''timestamp'' = JStr s \<longrightarrow> strptime s = None)
      \<longrightarrow> snd (process_message (JObj d) w) = None"
  proof
    assume a: "\<forall>s. dict_get d ''timestamp'' = JStr s \<longrightarrow> strptime s = None"
    show "snd (process_message (JObj d) w) = None"
    proof (cases "\<exists>s. dict_get d ''timestamp'' = JStr s")
      case True
      then obtain s where s: "dict_get d ''timestamp'' = JStr s" by blast
      with a have "strptime s = None" by simp
      with s show ?thesis by (rule process_message_unparsed)
    next
      case False
      then show ?thesis by (simp add: process_message_not_text)
    qed
  qed
  show "\<forall>s dt. dict_get d ''timestamp'' = JStr s \<and> strptime s = Some dt
         \<and> truthy (dict_get d ''keyword_mentioned'')
        \<longrightarrow> snd (process_message (JObj d) w) = Some (hour dt, dict_get d ''keyword_mentioned'')
            \<and> 0 \<le> hour dt \<and> hour dt \<le> 23"
  proof (intro allI impI)
    fix s dt
    assume a: "dict_get d ''timestamp'' = JStr s \<and> strptime s = Some dt
         \<and> truthy (dict_get d ''keyword_mentioned'')"
    then have "map_option hour (strptime s) = Some (hour dt)" by simp
    from process_message_sample [OF this] a strptime_hour [of s dt]
    show "snd (process_message (JObj d) w) = Some (hour dt, dict_get d ''keyword_mentioned'')
            \<and> 0 \<le> hour dt \<and> hour dt \<le> 23" by simp
  qed
  show "truthy (dict_get d ''keyword_mentioned'') \<longrightarrow>
        (dict_get d ''timestamp'' = JStr ''2025-01-29 14:35:20''
           \<longrightarrow> snd (process_message (JObj d) w) = Some (14, dict_get d ''keyword_mentioned''))
      \<and> (dict_get d ''timestamp'' = JStr ''2025-01-29 00:05:00''
           \<longrightarrow> snd (process_message (JObj d) w) = Some (0, dict_get d ''keyword_mentioned''))
      \<and> (dict_get d ''timestamp'' = JStr ''2025-01-29 23:59:59''
           \<longrightarrow> snd (process_message (JObj d) w) = Some (23, dict_get d ''keyword_mentioned''))"
    using process_message_sample [OF strptime_samples(1), of d w]
      process_message_sample [OF strptime_samples(2), of d w]
      process_message_sample [OF strptime_samples(3), of d w]
    by blast
  show "\<forall>e line rest m.
         strip line \<noteq> [] \<and> loads e (strip line) = Some m \<and> snd (process_message m w) = None
        \<longrightarrow> process_lines e (line # rest) w = process_lines e rest (fst (process_message m w))
            \<and> table (fst (process_message m w)) = table w
            \<and> txns (fst (process_message m w)) = txns w"
    using process_lines_skip by blast
qed

theorem process_message_result_witness:
  "snd (process_message meme_message process_start) = Some (14, JStr ''meme'')
   \<and> snd (process_message (JObj [(''timestamp'', JStr ''2025-01-29 14:35:20'')]) process_start) = None
   \<and> snd (process_message (JObj [(''timestamp'', JStr ''2025-01-29 24:00:00''),
                                 (''keyword_mentioned'', JStr ''meme'')]) process_start) = None
   \<and> table (fst (process_lines (sample_env no_fault (Readable [])) [no_keyword_line @ ''\<newline>'']
                   process_start)) = table process_start"
proof -
  let ?d1 = "[(''timestamp'', JStr ''2025-01-29 14:35:20''), (''keyword_mentioned'', JStr ''meme'')]"
  let ?d2 = "[(''timestamp'', JStr ''2025-01-29 14:35:20'')]"
  let ?d3 = "[(''timestamp'', JStr ''2025-01-29 24:00:00''), (''keyword_mentioned'', JStr ''meme'')]"
  let ?e = "sample_env no_fault (Readable [])"
  have k1: "truthy (dict_get ?d1 ''keyword_mentioned'')" "dict_get ?d1 ''keyword_mentioned'' = JStr ''meme''"
    and t1: "dict_get ?d1 ''timestamp'' = JStr ''2025-01-29 14:35:20''"
    by (simp_all add: dict_get_def)
  have a: "snd (process_message meme_message process_start) = Some (14, JStr ''meme'')"
    using process_message_result [of ?d1 process_start] k1 t1
    unfolding meme_message_def by metis
  have k2: "map_of ?d2 ''keyword_mentioned'' = None" by simp
  have b: "snd (process_message (JObj ?d2) process_start) = None"
    using process_message_result [of ?d2 process_start] k2 by blast
  have p: "strptime ''2025-01-29 24:00:00'' = None" by code_simp
  have t3: "\<forall>s. dict_get ?d3 ''timestamp'' = JStr s \<longrightarrow> strptime s = None"
    using p by (simp add: dict_get_def)
  have c: "snd (process_message (JObj ?d3) process_start) = None"
    using process_message_result [of ?d3 process_start] t3 by blast
  have s: "strip (no_keyword_line @ ''\<newline>'') = no_keyword_line" by code_simp
  have n: "strip (no_keyword_line @ ''\<newline>'') \<noteq> []" by code_simp
  have l: "loads ?e (strip (no_keyword_line @ ''\<newline>'')) = Some (JObj ?d2)" by code_simp
  from process_message_result [of ?d2 process_start] n l b
  have "process_lines ?e [no_keyword_line @ ''\<newline>''] process_start
          = process_lines ?e [] (fst (process_message (JObj ?d2) process_start))
        \<and> table (fst (process_message (JObj ?d2) process_start)) = table process_start"
    by blast
  then have d: "table (fst (process_lines ?e [no_keyword_line @ ''\<newline>''] process_start)) = table process_start"
    by simp
  from a b c d show ?thesis by (simp only:)
qed

text \<open>
  C6, as stated, does not hold: it says that a line at the end of the file that has no
  terminator is not consumed, and that the offset returned is the end of the last
  terminated line. On the record of the scenario, a newline and the record again with
  no newline after it, the call returns 125, the end of the file, not 63, the end of
  the first line, and both records are counted.
\<close>

theorem partial_line_is_consumed:
  "map_option snd
     (consume_messages_from_file
        (sample_env no_fault (Readable (meme_line @ ''\<newline>'' @ meme_line))) 5 0 process_start)
   = Some (Returned 125)
   \<and> last_line_end (meme_line @ ''\<newline>'' @ meme_line) = 63
   \<and> map_option (stored_counts 14 ''meme'' \<circ> fst)
     (consume_messages_from_file
        (sample_env no_fault (Readable (meme_line @ ''\<newline>'' @ meme_line))) 5 0 process_start)
   = Some [2]"
  by code_simp

text \<open>
  C6, amended. For every readable file, a call of \<^verbatim>\<open>consume_messages_from_file\<close>
  that returns, returns the offset of the end of the file, and it returns whenever
  each line that is not blank is JSON. That offset is the end of the last terminated
  line exactly when the content is empty or ends with a terminator. What follows the
  last terminator is read as one more line, after the terminated ones, and is
  processed like them.
\<close>

theorem offset_is_end_of_file:
  assumes "live_data e = Readable content"
  shows "(\<forall>w1 n. consume_messages_from_file e i lp w = Some (w1, Returned n) \<longrightarrow> n = length content)
       \<and> (json_lines e content \<longrightarrow>
            (\<exists>w1. consume_messages_from_file e i lp w = Some (w1, Returned (length content))))
       \<and> (length content = last_line_end content \<longleftrightarrow> content = [] \<or> terminator (last content))
       \<and> iter_lines [] content =
            iter_lines [] (take (last_line_end content) content)
            @ (if last_line_end content < length content
               then [drop (last_line_end content) content] else [])
       \<and> (\<forall>w0. read_file e 0 w0 =
            (case process_lines e (iter_lines [] (take (last_line_end content) content)) w0 of
               (w1, Some x) \<Rightarrow> (w1, Inl x)
             | (w1, None) \<Rightarrow>
                 (case process_lines e (if last_line_end content < length content
                                        then [drop (last_line_end content) content] else []) w1 of
                    (w2, Some x) \<Rightarrow> (w2, Inl x)
                  | (w2, None) \<Rightarrow> (w2, Inr (length content)))))"
proof -
  from consume_outcome [of e i lp w] obtain w1 out where
    c: "consume_messages_from_file e i lp w = Some (w1, out)"
    and n: "\<forall>n. out = Returned n \<longleftrightarrow>
           (\<exists>content. live_data e = Readable content \<and> n = length content \<and> json_lines e content)"
    by blast
  have 1: "\<forall>w1 n. consume_messages_from_file e i lp w = Some (w1, Returned n) \<longrightarrow> n = length content"
    using c n assms by auto
  have 2: "json_lines e content \<longrightarrow>
            (\<exists>w1. consume_messages_from_file e i lp w = Some (w1, Returned (length content)))"
    using c n assms by auto
  have 3: "length content = last_line_end content \<longleftrightarrow> content = [] \<or> terminator (last content)"
    using last_line_end_full [of content] by auto
  note 4 = iter_lines_fragment [of content]
  have 5: "\<forall>w0. read_file e 0 w0 =
            (case process_lines e (iter_lines [] (take (last_line_end content) content)) w0 of
               (w1, Some x) \<Rightarrow> (w1, Inl x)
             | (w1, None) \<Rightarrow>
                 (case process_lines e (if last_line_end content < length content
                                        then [drop (last_line_end content) content] else []) w1 of
                    (w2, Some x) \<Rightarrow> (w2, Inl x)
                  | (w2, None) \<Rightarrow> (w2, Inr (length content))))"
    using read_file_fragment [OF assms] by blast
  from 1 2 3 4 5 show ?thesis by (intro conjI)
qed

theorem offset_is_end_of_file_witness:
  "(\<exists>w1. consume_messages_from_file
           (sample_env no_fault (Readable (meme_line @ ''\<newline>''))) 5 0 process_start
         = Some (w1, Returned 63))
   \<and> last_line_end (meme_line @ ''\<newline>'') = 63"
proof -
  let ?c = "meme_line @ ''\<newline>''"
  let ?e = "sample_env no_fault (Readable ?c)"
  have l: "live_data ?e = Readable ?c" by (simp add: sample_env_def)
  have j: "json_lines ?e ?c" by code_simp
  have n: "length ?c = 63" by code_simp
  have t: "?c = [] \<or> terminator (last ?c)" by (simp add: terminator_def)
  note th = offset_is_end_of_file [OF l, of 5 0 process_start]
  from th j have "\<exists>w1. consume_messages_from_file ?e 5 0 process_start = Some (w1, Returned (length ?c))"
    by blast
  moreover from th t have "length ?c = last_line_end ?c" by blast
  ultimately show ?thesis unfolding n by simp
qed

text \<open>
  C7. Every table reached from the freshly initialized empty table by any sequence of
  calls \<^verbatim>\<open>update_keyword_count(hour, keyword)\<close>, whatever the hours and the texts of
  the keywords and whichever of the calls fail in the storage engine, has at most one
  row for each pair of hour and keyword, and every row has a count of at least 1.
\<close>

theorem reachable_tables_keyed:
  assumes "io_fault e (txns w) = None"
  shows "\<exists>db. table (apply_observations e obs (init_keyword_db e w)) = Some db
           \<and> distinct (map (\<lambda>r. (hour_of_day r, keyword r)) (rows db))
           \<and> (\<forall>r \<in> set (rows db). 1 \<le> count r)"
proof -
  have t: "table (init_keyword_db e w) = Some \<lparr>rows = [], last_id = 0\<rparr>"
    using assms by (rule init_keyword_db_table)
  have "table_ok \<lparr>rows = [], last_id = 0\<rparr>"
    by (simp add: table_ok_def row_keys_def)
  from apply_observations_ok [OF t this, of e obs] show ?thesis
    by (auto simp: table_ok_def row_keys_def)
qed

theorem reachable_tables_keyed_witness:
  "\<exists>db. table (apply_observations (sample_env (\<lambda>n. if n = 2 then Some Commit else None) (Readable []))
                  [(14, ''meme''), (14, ''meme''), (9, ''cat''), (14, ''meme'')]
                  (init_keyword_db (sample_env (\<lambda>n. if n = 2 then Some Commit else None) (Readable []))
                     process_start)) = Some db
        \<and> distinct (map (\<lambda>r. (hour_of_day r, keyword r)) (rows db))
        \<and> (\<forall>r \<in> set (rows db). 1 \<le> count r)"
proof -
  have f: "io_fault (sample_env (\<lambda>n. if n = 2 then Some Commit else None) (Readable []))
             (txns process_start) = None"
    by (simp add: sample_env_def process_start_def)
  from reachable_tables_keyed [OF f] show ?thesis .
qed

text \<open>
  C8. When the configuration loads and no prior database file resists deletion: if the
  source file does not exist when the cycle opens it, the process ends with the exit
  status 10; with the file present it ends with 0 or 11, and with 11 whenever the read
  fails otherwise (the file cannot be opened, reading it fails, or a line is no JSON).
  \<^verbatim>\<open>consume_messages_from_file\<close> exits with 10 for the missing file only, and with no
  code other than 10 and 11.
\<close>

theorem missing_file_exit_code:
  assumes "settings e = Some i" and "\<not> (db_file w \<and> unlink_fails e)"
  shows "(live_data e = Missing \<longrightarrow> map_option snd (main e w) = Some 10)
       \<and> (live_data e \<noteq> Missing \<longrightarrow>
            map_option snd (main e w) = Some 0 \<or> map_option snd (main e w) = Some 11)
       \<and> (live_data e = Denied \<or> (\<exists>c. live_data e = Failing c)
            \<or> (\<exists>c. live_data e = Readable c \<and> \<not> json_lines e c)
           \<longrightarrow> map_option snd (main e w) = Some 11)
       \<and> (map_option snd (consume_messages_from_file e i lp w) = Some (Exited 10)
            \<longleftrightarrow> live_data e = Missing)
       \<and> (\<forall>c. map_option snd (consume_messages_from_file e i lp w) = Some (Exited c)
            \<longrightarrow> c = 10 \<or> c = 11)"
proof -
  from main_outcome [OF assms] obtain w2 where
    m: "main e w = Some (w2, if live_data e = Missing then 10
                     else if \<exists>content. live_data e = Readable content \<and> json_lines e content then 0
                     else 11)" by blast
  from consume_outcome [of e i lp w] obtain w1 out where
    c: "consume_messages_from_file e i lp w = Some (w1, out)"
    and mi: "out = Exited 10 \<longleftrightarrow> live_data e = Missing"
    and x: "\<forall>c. out = Exited c \<longrightarrow> c = 10 \<or> c = 11"
    by blast
  have 1: "live_data e = Missing \<longrightarrow> map_option snd (main e w) = Some 10"
    using m by simp
  have 2: "live_data e \<noteq> Missing \<longrightarrow>
            map_option snd (main e w) = Some 0 \<or> map_option snd (main e w) = Some 11"
    using m by simp
  have 3: "live_data e = Denied \<or> (\<exists>c. live_data e = Failing c)
            \<or> (\<exists>c. live_data e = Readable c \<and> \<not> json_lines e c)
           \<longrightarrow> map_option snd (main e w) = Some 11"
    using m by auto
  have 4: "map_option snd (consume_messages_from_file e i lp w) = Some (Exited 10)
            \<longleftrightarrow> live_data e = Missing"
    using c mi by simp
  have 5: "\<forall>c. map_option snd (consume_messages_from_file e i lp w) = Some (Exited c)
            \<longrightarrow> c = 10 \<or> c = 11"
    using c x by simp
  from 1 2 3 4 5 show ?thesis by (intro conjI)
qed

theorem missing_file_exit_code_witness:
  "map_option snd (main (sample_env no_fault Missing) process_start) = Some 10
   \<and> map_option snd (main (sample_env no_fault Denied) process_start) = Some 11
   \<and> map_option snd (main (sample_env no_fault (Failing meme_line)) process_start) = Some 11"
proof -
  have s: "\<And>f. settings (sample_env no_fault f) = Some 5"
    by (simp add: sample_env_def)
  have u: "\<And>f. \<not> (db_file process_start \<and> unlink_fails (sample_env no_fault f))"
    by (simp add: sample_env_def)
  have l: "\<And>f. live_data (sample_env no_fault f) = f"
    by (simp add: sample_env_def)
  from missing_file_exit_code [OF s u, of Missing] l
  have a: "map_option snd (main (sample_env no_fault Missing) process_start) = Some 10"
    by simp
  from missing_file_exit_code [OF s u, of Denied] l
  have b: "map_option snd (main (sample_env no_fault Denied) process_start) = Some 11"
    by simp
  from missing_file_exit_code [OF s u, of "Failing meme_line"] l
  have c: "map_option snd (main (sample_env no_fault (Failing meme_line)) process_start) = Some 11"
    by simp
  from a b c show ?thesis by (intro conjI)
qed

text \<open>
  C9 says that the process ends with an exit status of its own when the table cannot
  be initialized. \<^verbatim>\<open>init_keyword_db\<close> catches the failure itself, so the handler of
  \<^verbatim>\<open>main\<close> with \<^verbatim>\<open>sys.exit(3)\<close> never runs: with a storage on which every
  connection fails, the process goes on to read the source file, has no table at the
  end, and ends with the status 0.
\<close>

theorem init_failure_not_fatal:
  "map_option snd
     (main (sample_env (\<lambda>n. Some Connect) (Readable (meme_line @ ''\<newline>''))) process_start)
   = Some 0
   \<and> map_option (opens \<circ> fst)
     (main (sample_env (\<lambda>n. Some Connect) (Readable (meme_line @ ''\<newline>''))) process_start)
   = Some 1
   \<and> map_option (table \<circ> fst)
     (main (sample_env (\<lambda>n. Some Connect) (Readable (meme_line @ ''\<newline>''))) process_start)
   = Some None"
  by code_simp

text \<open>
  C10. For every input, when the storage operation inside \<^verbatim>\<open>update_keyword_count\<close>
  raises, the function logs the error and returns: its result is the world the failed
  attempt left, with the error record last in the log, and the table is the table
  before the call, without the observation. In the loop over the lines, the line whose
  update failed is followed by the rest of the lines.
\<close>

theorem storage_error_logged_and_skipped:
  assumes "snd (update_attempt e h k w) \<noteq> None"
  shows "update_keyword_count e h k w =
           logger ERROR ''ERROR: Failed to update keyword count'' (fst (update_attempt e h k w))
         \<and> last (log (update_keyword_count e h k w)) = (ERROR, ''ERROR: Failed to update keyword count'')
         \<and> table (update_keyword_count e h k w) = table w
         \<and> (\<forall>line rest m w0.
               strip line \<noteq> [] \<and> loads e (strip line) = Some m
               \<and> process_message m w0 = (w, Some (h, k)) \<longrightarrow>
               process_lines e (line # rest) w0 = process_lines e rest (update_keyword_count e h k w)
               \<and> table (update_keyword_count e h k w) = table w0)"
proof -
  obtain w1 r where a: "update_attempt e h k w = (w1, r)" by (cases "update_attempt e h k w")
  with assms obtain x where r: "r = Some x" by auto
  have u: "update_keyword_count e h k w = logger ERROR ''ERROR: Failed to update keyword count'' w1"
    using a r by (simp add: update_keyword_count_def)
  have t: "table (update_keyword_count e h k w) = table w"
    using update_attempt_raise [of e h k w w1 x] a r u by simp
  have l: "last (log (update_keyword_count e h k w)) = (ERROR, ''ERROR: Failed to update keyword count'')"
    unfolding u by simp
  have p: "\<forall>line rest m w0.
               strip line \<noteq> [] \<and> loads e (strip line) = Some m
               \<and> process_message m w0 = (w, Some (h, k)) \<longrightarrow>
               process_lines e (line # rest) w0 = process_lines e rest (update_keyword_count e h k w)
               \<and> table (update_keyword_count e h k w) = table w0"
  proof (intro allI impI conjI)
    fix line rest m w0
    assume b: "strip line \<noteq> [] \<and> loads e (strip line) = Some m \<and> process_message m w0 = (w, Some (h, k))"
    then show "process_lines e (line # rest) w0 = process_lines e rest (update_keyword_count e h k w)"
      by simp
    from b process_message_frame [of m w0 w "Some (h, k)"] have "table w = table w0" by simp
    with t show "table (update_keyword_count e h k w) = table w0" by simp
  qed
  from u l t p a show ?thesis by simp
qed

theorem storage_error_logged_and_skipped_witness:
  "last (log (update_keyword_count (sample_env (\<lambda>n. if n = 1 then Some Commit else None) (Readable []))
                 14 (JStr ''meme'')
                 (init_keyword_db (sample_env (\<lambda>n. if n = 1 then Some Commit else None) (Readable []))
                    process_start)))
     = (ERROR, ''ERROR: Failed to update keyword count'')
   \<and> table (update_keyword_count (sample_env (\<lambda>n. if n = 1 then Some Commit else None) (Readable []))
                 14 (JStr ''meme'')
                 (init_keyword_db (sample_env (\<lambda>n. if n = 1 then Some Commit else None) (Readable []))
                    process_start))
     = Some \<lparr>rows = [], last_id = 0\<rparr>
   \<and> stored_counts 14 ''meme''
       (fst (process_lines (sample_env (\<lambda>n. if n = 1 then Some Commit else None) (Readable []))
               [meme_line @ ''\<newline>'', meme_line @ ''\<newline>'']
               (init_keyword_db (sample_env (\<lambda>n. if n = 1 then Some Commit else None) (Readable []))
                  process_start)))
     = [1]"
proof -
  let ?e = "sample_env (\<lambda>n. if n = 1 then Some Commit else None) (Readable [])"
  let ?w = "init_keyword_db ?e process_start"
  have r: "snd (update_attempt ?e 14 (JStr ''meme'') ?w) \<noteq> None" by code_simp
  have t: "table ?w = Some \<lparr>rows = [], last_id = 0\<rparr>" by code_simp
  note th = storage_error_logged_and_skipped [OF r]
  have a: "last (log (update_keyword_count ?e 14 (JStr ''meme'') ?w))
             = (ERROR, ''ERROR: Failed to update keyword count'')"
    using th by (elim conjE)
  have b: "table (update_keyword_count ?e 14 (JStr ''meme'') ?w) = table ?w"
    using th by (elim conjE)
  have c: "stored_counts 14 ''meme''
       (fst (process_lines ?e [meme_line @ ''\<newline>'', meme_line @ ''\<newline>''] ?w)) = [1]"
    by code_simp
  from a b t c show ?thesis by (simp only:)
qed

end
